theory Spec2Isabelle
  imports Complex_Main "HOL-Library.Word" "HOL-Library.Sublist"
begin

unbundle bit_operations_syntax

section \<open>AsteroidExplorer.jsx: a shallow embedding\<close>

text \<open>
  The source is one JavaScript module. Its values are modelled as follows.
  \<^item> A JavaScript string is the list of its UTF-16 code units (\<open>charCodeAt\<close> reads one
    unit), so a string is a \<open>16 word list\<close>; \<open>str\<close> embeds an ASCII literal.
  \<^item> The 32-bit integer operators (\<open>^\<close>, \<open>|\<close>, \<open>>>>\<close>, \<open>Math.imul\<close>) work on
    \<open>32 word\<close>: \<open>ToInt32\<close> and \<open>ToUint32\<close> are both reduction modulo \<open>2 ^ 32\<close>, and the
    two readings of the same word are \<open>sint\<close> and \<open>uint\<close>.
  \<^item> A Number is the \<open>real\<close> it denotes. Every arithmetic operation of the shape
    generator rounds its result to binary64 (\<open>dbl\<close>), and every store into the
    \<open>Float32Array\<close> behind a buffer attribute rounds to binary32 (\<open>fround\<close>); there is
    no NaN and no \<open>Infinity\<close>. The numbers of the catalogue are only stored and shown.
\<close>

subsection \<open>Strings\<close>

type_synonym jsstring = "16 word list"

definition str :: "string \<Rightarrow> jsstring" where
  "str s = map of_char s"

subsection \<open>Catalogue entries\<close>

text \<open>
  A catalogue entry is an object with the properties of the entries of
  \<open>SAMPLE_ASTEROIDS\<close>. Identifier, name, designation and summary are strings; the two
  physical attributes hold a number, \<open>null\<close>, or whatever the detail lookup returned;
  discovery date and discoverer are a string or \<open>null\<close>. The selected entry may carry
  one more property, \<open>sbdb_raw\<close>, the response of the detail lookup; \<open>None\<close> means
  that the object has no such property. The property \<open>id\<close> is the field \<open>id'\<close>.
\<close>

datatype jsval = JUndefined | JNull | JNum real | JStr jsstring

text \<open>Truthiness, as \<open>||\<close>, \<open>&&\<close> and \<open>?:\<close> test it.\<close>

fun truthy :: "jsval \<Rightarrow> bool" where
  "truthy JUndefined = False"
| "truthy JNull = False"
| "truthy (JNum x) = (x \<noteq> 0)"
| "truthy (JStr s) = (s \<noteq> [])"

record notable_event =
  date :: jsstring
  event :: jsstring

text \<open>
  The response of the detail lookup, as far as the program reads it: the object \<open>phys\<close>
  (absent or not) and its properties \<open>diameter\<close>, \<open>H\<close> and \<open>albedo\<close>, each
  \<open>JUndefined\<close> when absent.
\<close>

record sbdb_phys =
  diameter :: jsval
  H :: jsval
  albedo :: jsval

record sbdb_json =
  phys :: "sbdb_phys option"

record entry =
  id' :: jsstring
  name :: jsstring
  designation :: jsstring
  diameter_km :: jsval
  absolute_magnitude_h :: jsval
  is_potentially_hazardous :: bool
  discovery_date :: "jsstring option"
  discoverer :: "jsstring option"
  summary :: jsstring
  notable_events :: "notable_event list"
  sbdb_raw :: "sbdb_json option"

text \<open>The embedded catalogue (source lines 32-175).\<close>

definition SAMPLE_ASTEROIDS :: "entry list" where
  "SAMPLE_ASTEROIDS =
    [\<lparr>id' = str ''99942'',
      name = str ''99942 Apophis'',
      designation = str ''99942 Apophis'',
      diameter_km = JNum 0.34,
      absolute_magnitude_h = JNum 19.7,
      is_potentially_hazardous = True,
      discovery_date = Some (str ''2004-06-19''),
      discoverer = Some (str ''K. A. Williams / R. S. McMillan (LINEAR)''),
      summary = str ''Apophis is a near-Earth asteroid known for its close approach in April 2029; modern orbit determinations rule out impacts for the foreseeable future.'',
      notable_events =
        [\<lparr>date = str ''2004-06-19'', event = str ''Discovery (LINEAR)''\<rparr>,
         \<lparr>date = str ''2029-04-13'', event = str ''Very close Earth approach (inside geostationary orbit distance)''\<rparr>],
      sbdb_raw = None\<rparr>,
     \<lparr>id' = str ''152830'',
      name = str ''152830 Dinkinesh'',
      designation = str ''152830 Dinkinesh & Selam'',
      diameter_km = JNum 0.1,
      absolute_magnitude_h = JNum 21.5,
      is_potentially_hazardous = False,
      discovery_date = Some (str ''2006-08-27''),
      discoverer = Some (str ''Spacewatch''),
      summary = str ''Dinkinesh is a small main-belt asteroid visited by NASA'' @ [39] @ str ''s Lucy mission; it has a small companion named Selam.'',
      notable_events =
        [\<lparr>date = str ''2023-10-XX'', event = str ''Lucy flyby (imaging and characterization)''\<rparr>],
      sbdb_raw = None\<rparr>,
     \<lparr>id' = str ''25143'',
      name = str ''25143 Itokawa'',
      designation = str ''25143 Itokawa'',
      diameter_km = JNum 0.535,
      absolute_magnitude_h = JNum 19.2,
      is_potentially_hazardous = False,
      discovery_date = Some (str ''1998-09-26''),
      discoverer = Some (str ''H. Abe''),
      summary = str ''Itokawa is a rubble-pile asteroid visited by JAXA'' @ [39] @ str ''s Hayabusa mission; samples returned to Earth in 2010.'',
      notable_events =
        [\<lparr>date = str ''1998-09-26'', event = str ''Discovery (H. Abe)''\<rparr>,
         \<lparr>date = str ''2005-09-12'', event = str ''Hayabusa arrival''\<rparr>,
         \<lparr>date = str ''2010-06-13'', event = str ''Sample return to Earth''\<rparr>],
      sbdb_raw = None\<rparr>,
     \<lparr>id' = str ''16'',
      name = str ''16 Psyche'',
      designation = str ''16 Psyche'',
      diameter_km = JNum 226,
      absolute_magnitude_h = JNum 6.2,
      is_potentially_hazardous = False,
      discovery_date = Some (str ''1852-03-17''),
      discoverer = Some (str ''Annibale de Gasparis''),
      summary = str ''Psyche is a large, metal-rich asteroid and target of NASA'' @ [39] @ str ''s Psyche mission to study planetary cores and differentiation.'',
      notable_events =
        [\<lparr>date = str ''2020-10-13'', event = str ''Psyche mission launch (target selected earlier)''\<rparr>],
      sbdb_raw = None\<rparr>,
     \<lparr>id' = str ''2024YR4'',
      name = str ''2024 YR4'',
      designation = str ''2024 YR4'',
      diameter_km = JNull,
      absolute_magnitude_h = JNull,
      is_potentially_hazardous = False,
      discovery_date = Some (str ''2024-12-XX''),
      discoverer = Some (str ''Survey''),
      summary = str ''Recently-designated near-Earth object '' @ [8212] @ str '' check JPL SBDB for latest parameters.'',
      notable_events =
        [\<lparr>date = str ''2024-12-01'', event = str ''Discovery (survey)''\<rparr>],
      sbdb_raw = None\<rparr>,
     \<lparr>id' = str ''52246'',
      name = str ''52246 Donaldjohanson'',
      designation = str ''52246 Donaldjohanson'',
      diameter_km = JNum 0.005,
      absolute_magnitude_h = JNum 18.9,
      is_potentially_hazardous = False,
      discovery_date = Some (str ''1987-10-07''),
      discoverer = Some (str ''Observatory''),
      summary = str ''Main-belt asteroid named after paleoanthropologist Donald Johanson.'',
      notable_events =
        [\<lparr>date = str ''1987-10-07'', event = str ''Discovery''\<rparr>],
      sbdb_raw = None\<rparr>,
     \<lparr>id' = str ''Didymos'',
      name = str ''65803 Didymos & Dimorphos'',
      designation = str ''65803 Didymos'',
      diameter_km = JNum 0.78,
      absolute_magnitude_h = JNum 18.3,
      is_potentially_hazardous = False,
      discovery_date = Some (str ''1996-04-11''),
      discoverer = Some (str ''ROAST survey''),
      summary = str ''Binary near-Earth system; Dimorphos was the target of NASA'' @ [39] @ str ''s DART impact demonstration in 2022.'',
      notable_events =
        [\<lparr>date = str ''1996-04-11'', event = str ''Discovery of Didymos''\<rparr>,
         \<lparr>date = str ''2022-09-26'', event = str ''DART kinetic impact on Dimorphos''\<rparr>],
      sbdb_raw = None\<rparr>,
     \<lparr>id' = str ''243'',
      name = str ''243 Ida & Dactyl'',
      designation = str ''243 Ida'',
      diameter_km = JNum 31.8,
      absolute_magnitude_h = JNum 10.5,
      is_potentially_hazardous = False,
      discovery_date = Some (str ''1884-09-29''),
      discoverer = Some (str ''J. Palisa''),
      summary = str ''Ida is a main-belt asteroid and host to Dactyl, the first discovered asteroid moon (discovered in Galileo images).'',
      notable_events =
        [\<lparr>date = str ''1993-08-28'', event = str ''Galileo imaging and discovery of moon Dactyl''\<rparr>],
      sbdb_raw = None\<rparr>,
     \<lparr>id' = str ''433'',
      name = str ''433 Eros'',
      designation = str ''433 Eros'',
      diameter_km = JNum 16.84,
      absolute_magnitude_h = JNum 10.4,
      is_potentially_hazardous = False,
      discovery_date = Some (str ''1898-08-13''),
      discoverer = Some (str ''G. Witt''),
      summary = str ''Visited by NASA'' @ [39] @ str ''s NEAR Shoemaker mission which mapped Eros and landed in 2001.'',
      notable_events =
        [\<lparr>date = str ''1999-02-14'', event = str ''NEAR Shoemaker arrival & mapping (1999'' @ [8211] @ str ''2001)''\<rparr>],
      sbdb_raw = None\<rparr>,
     \<lparr>id' = str ''4'',
      name = str ''4 Vesta'',
      designation = str ''4 Vesta'',
      diameter_km = JNum 525.4,
      absolute_magnitude_h = JNum 3.2,
      is_potentially_hazardous = False,
      discovery_date = Some (str ''1807-03-29''),
      discoverer = Some (str ''H. Olbers''),
      summary = str ''One of the largest objects in the asteroid belt; Dawn mission mapped its geology and linked HED meteorites to Vesta.'',
      notable_events =
        [\<lparr>date = str ''2011-07-16'', event = str ''Dawn orbit & mapping (2011'' @ [8211] @ str ''2012)''\<rparr>],
      sbdb_raw = None\<rparr>]"

subsection \<open>Integer conversion of Numbers\<close>

text \<open>
  \<open>ToInt32\<close> truncates a Number towards zero and reduces it modulo \<open>2 ^ 32\<close>; the
  operators \<open>^\<close> and \<open>>>>\<close> apply it to their operands.
\<close>

definition ToInt32 :: "real \<Rightarrow> 32 word" where
  "ToInt32 x = word_of_int (if x < 0 then \<lceil>x\<rceil> else \<lfloor>x\<rfloor>)"

subsection \<open>Rounding\<close>

text \<open>
  A Number is an IEEE 754 binary64 value, and the buffer behind an attribute of a
  geometry is a \<open>Float32Array\<close>, which holds binary32 values. Every finite value of
  either format is a real, and an arithmetic operation returns the exact result rounded
  to the nearest value of the format, a tie going to the even significand. \<open>rne\<close> is
  that rounding to an integer, and \<open>round_to p emin\<close> to the format with a significand
  of \<open>p\<close> bits and least exponent \<open>emin\<close>: the values between \<open>2 ^ e\<close> and
  \<open>2 ^ (e + 1)\<close> are \<open>2 ^ (e - p + 1)\<close> apart, and those below \<open>2 ^ emin\<close>, the subnormal
  ones, \<open>2 ^ (emin - p + 1)\<close>. \<open>dbl\<close> rounds to binary64 and \<open>fround\<close>, like
  \<open>Math.fround\<close> and like a store into a \<open>Float32Array\<close>, to binary32.

  Overflow to \<open>Infinity\<close>, NaN and the sign of zero are not modelled, and \<open>Math.sin\<close>,
  \<open>Math.cos\<close> and \<open>Math.sqrt\<close> are taken to return the exact value rounded to binary64.
\<close>

definition rne :: "real \<Rightarrow> int" where
  "rne x =
     (let f = \<lfloor>x\<rfloor>
      in if x - of_int f < 1 / 2 then f
         else if 1 / 2 < x - of_int f then f + 1
         else if even f then f else f + 1)"

definition round_to :: "nat \<Rightarrow> int \<Rightarrow> real \<Rightarrow> real" where
  "round_to p emin x =
     (if x = 0 then 0
      else let e = max \<lfloor>log 2 \<bar>x\<bar>\<rfloor> emin; q = 2 powi (e - int p + 1)
           in of_int (rne (x / q)) * q)"

definition dbl :: "real \<Rightarrow> real" where
  "dbl = round_to 53 (- 1022)"

definition fround :: "real \<Rightarrow> real" where
  "fround = round_to 24 (- 126)"

subsection \<open>mulberry32 (source lines 187-195)\<close>

text \<open>
  \<open>mulberry32(seed)\<close> returns a closure over the mutable variable \<open>t\<close>. Every closure
  the program has created so far lives in the store: a closure is the address of its
  cell, the cell holds the current value of \<open>t\<close> (an integer Number, which \<open>+=\<close> does
  not wrap), creating a closure allocates the next free cell, and calling one updates
  its cell and returns the drawn Number.
\<close>

record heap =
  cells :: "nat \<Rightarrow> int"
  next_free :: nat

definition mulberry32 :: "int \<Rightarrow> heap \<Rightarrow> nat \<times> heap" where
  "mulberry32 seed hp =
     (next_free hp,
      \<lparr>cells = (cells hp)(next_free hp := uint (word_of_int seed :: 32 word)),
       next_free = Suc (next_free hp)\<rparr>)"

text \<open>
  The closure body, as a function of the value of \<open>t\<close> it finds (\<open>0x6d2b79f5\<close> is
  1831565813):
  \<^verbatim>\<open>t += 0x6d2b79f5;
  let r = Math.imul(t ^ (t >>> 15), 1 | t);
  r ^= r + Math.imul(r ^ (r >>> 7), 61 | r);
  return ((r ^ (r >>> 14)) >>> 0) / 4294967296;\<close>
  It returns the drawn Number and the new value of \<open>t\<close>. The quotient of an unsigned
  32-bit integer by \<open>2 ^ 32\<close> is a binary64 value, so the division does not round.
\<close>

definition mulberry32_body :: "int \<Rightarrow> real \<times> int" where
  "mulberry32_body t0 =
     (let t = t0 + 1831565813;
          tw = (word_of_int t :: 32 word);
          r = (tw XOR drop_bit 15 tw) * (1 OR tw);
          r = r XOR (r + (r XOR drop_bit 7 r) * (61 OR r))
      in (real_of_int (uint (r XOR drop_bit 14 r)) / 4294967296, t))"

definition call_rng :: "nat \<Rightarrow> heap \<Rightarrow> real \<times> heap" where
  "call_rng a hp =
     (case mulberry32_body (cells hp a) of
        (v, t) \<Rightarrow> (v, hp\<lparr>cells := (cells hp)(a := t)\<rparr>))"

subsection \<open>Buffer geometry\<close>

type_synonym vec3 = "real \<times> real \<times> real"

text \<open>
  The distance of a point from the centre, over the reals. The program does not
  compute it; it is the quantity in which distances are stated.
\<close>

definition vlength :: "vec3 \<Rightarrow> real" where
  "vlength v = (case v of (x, y, z) \<Rightarrow> sqrt (x * x + y * y + z * z))"

text \<open>The vector operations, in binary64.\<close>

definition vsub :: "vec3 \<Rightarrow> vec3 \<Rightarrow> vec3" where
  "vsub a b =
     (case a of (ax, ay, az) \<Rightarrow> case b of (bx, by, bz) \<Rightarrow>
        (dbl (ax - bx), dbl (ay - by), dbl (az - bz)))"

definition vadd :: "vec3 \<Rightarrow> vec3 \<Rightarrow> vec3" where
  "vadd a b =
     (case a of (ax, ay, az) \<Rightarrow> case b of (bx, by, bz) \<Rightarrow>
        (dbl (ax + bx), dbl (ay + by), dbl (az + bz)))"

definition cross :: "vec3 \<Rightarrow> vec3 \<Rightarrow> vec3" where
  "cross a b =
     (case a of (ax, ay, az) \<Rightarrow> case b of (bx, by, bz) \<Rightarrow>
        (dbl (dbl (ay * bz) - dbl (az * by)),
         dbl (dbl (az * bx) - dbl (ax * bz)),
         dbl (dbl (ax * by) - dbl (ay * bx))))"

text \<open>
  \<open>Vector3.length\<close> is \<open>Math.sqrt(x * x + y * y + z * z)\<close>, and \<open>Vector3.normalize\<close>
  multiplies each component by \<open>1 / (length() || 1)\<close>.
\<close>

definition length_vec :: "vec3 \<Rightarrow> real" where
  "length_vec v =
     (case v of (x, y, z) \<Rightarrow> dbl (sqrt (dbl (dbl (dbl (x * x) + dbl (y * y)) + dbl (z * z)))))"

definition normalize_vec :: "vec3 \<Rightarrow> vec3" where
  "normalize_vec v =
     (let l = length_vec v; s = dbl (1 / (if l = 0 then 1 else l))
      in case v of (x, y, z) \<Rightarrow> (dbl (x * s), dbl (y * s), dbl (z * s)))"

text \<open>
  A geometry has the attributes \<open>position\<close> and \<open>normal\<close> (one vector per vertex,
  \<open>position.count\<close> is the length of the list) and the triangle index, three vertex
  numbers per face. Both attributes are \<open>Float32Array\<close> buffers: a vector written to
  one of them is rounded to binary32, and \<open>getX\<close>, \<open>getY\<close>, \<open>getZ\<close> read the rounded
  values.
\<close>

record geometry =
  position :: "vec3 list"
  normal :: "vec3 list"
  index :: "nat list"

definition store32 :: "vec3 \<Rightarrow> vec3" where
  "store32 v = (case v of (x, y, z) \<Rightarrow> (fround x, fround y, fround z))"

text \<open>
  Modelled from the spec: \<open>THREE.SphereGeometry\<close> and \<open>computeVertexNormals\<close> belong to
  the three.js library, which is not part of the repository. The spec asks for "a
  standard UV-sphere of \<open>baseRadius\<close> at the requested resolution" with each vertex's
  "outward normal" and "a fixed triangulation topology matching a standard UV-sphere":
  rows \<open>iy = 0..heightSegments\<close> of \<open>widthSegments + 1\<close> vertices each, the vertex of
  column \<open>ix\<close> at longitude \<open>phi = ix / widthSegments * (Math.PI * 2)\<close> and polar angle
  \<open>theta = iy / heightSegments * Math.PI\<close>, at
  \<^verbatim>\<open>(-radius * Math.cos(phi) * Math.sin(theta), radius * Math.cos(theta),
   radius * Math.sin(phi) * Math.sin(theta))\<close>
  its normal the normalised vertex, two triangles per grid cell except one in the two
  polar rows. The library takes at least 3 and 2 segments. Vertex and normal are
  computed in binary64 and written to the two buffers.
\<close>

definition vertex_phi :: "nat \<Rightarrow> nat \<Rightarrow> real" where
  "vertex_phi w ix = dbl (dbl (real ix / real w) * dbl (dbl pi * 2))"

definition vertex_theta :: "nat \<Rightarrow> nat \<Rightarrow> real" where
  "vertex_theta h iy = dbl (dbl (real iy / real h) * dbl pi)"

definition sphere_vertex :: "real \<Rightarrow> nat \<Rightarrow> nat \<Rightarrow> nat \<Rightarrow> nat \<Rightarrow> vec3" where
  "sphere_vertex radius w h iy ix =
     (let phi = vertex_phi w ix; theta = vertex_theta h iy
      in (dbl (dbl (- radius * dbl (cos phi)) * dbl (sin theta)),
          dbl (radius * dbl (cos theta)),
          dbl (dbl (radius * dbl (sin phi)) * dbl (sin theta))))"

definition sphere_faces :: "nat \<Rightarrow> nat \<Rightarrow> nat \<Rightarrow> nat \<Rightarrow> nat list" where
  "sphere_faces w h iy ix =
     (let a = iy * (w + 1) + ix + 1; b = iy * (w + 1) + ix;
          c = (iy + 1) * (w + 1) + ix; d = (iy + 1) * (w + 1) + ix + 1
      in (if iy \<noteq> 0 then [a, b, d] else []) @ (if iy \<noteq> h - 1 then [b, c, d] else []))"

definition SphereGeometry :: "real \<Rightarrow> int \<Rightarrow> int \<Rightarrow> geometry" where
  "SphereGeometry radius widthSegments heightSegments =
     (let w = nat (max 3 widthSegments); h = nat (max 2 heightSegments);
          vertices = concat (map (\<lambda>iy. map (sphere_vertex radius w h iy) [0..<w + 1]) [0..<h + 1])
      in \<lparr>position = map store32 vertices,
          normal = map (\<lambda>v. store32 (normalize_vec v)) vertices,
          index = concat (map (\<lambda>iy. concat (map (sphere_faces w h iy) [0..<w])) [0..<h])\<rparr>)"

text \<open>
  Modelled from the spec: "recompute normals from the final triangle topology (flat
  geometric normals averaged per vertex)". Each face adds its cross product to its three
  corners, and every sum is normalised and written to the normal buffer.
\<close>

fun triangles :: "nat list \<Rightarrow> (nat \<times> nat \<times> nat) list" where
  "triangles (a # b # c # rest) = (a, b, c) # triangles rest"
| "triangles _ = []"

definition face_normal :: "vec3 list \<Rightarrow> nat \<times> nat \<times> nat \<Rightarrow> vec3" where
  "face_normal pos f =
     (case f of (a, b, c) \<Rightarrow> cross (vsub (pos ! c) (pos ! b)) (vsub (pos ! a) (pos ! b)))"

definition computeVertexNormals :: "vec3 list \<Rightarrow> nat list \<Rightarrow> vec3 list" where
  "computeVertexNormals pos idx =
     map (\<lambda>j. store32 (normalize_vec
            (foldr vadd
               (map (face_normal pos)
                  (filter (\<lambda>f. case f of (a, b, c) \<Rightarrow> j = a \<or> j = b \<or> j = c) (triangles idx)))
               (0, 0, 0))))
       [0..<length pos]"

subsection \<open>hashCode (source lines 283-290)\<close>

text \<open>
  \<^verbatim>\<open>let h = 2166136261 >>> 0;
  for (let i = 0; i < str.length; i++) { h ^= str.charCodeAt(i); h = Math.imul(h, 16777619); }
  return h >>> 0;\<close>
  The loop runs over the code units from left to right with the accumulator \<open>h\<close>.
\<close>

fun hashCode_loop :: "32 word \<Rightarrow> jsstring \<Rightarrow> 32 word" where
  "hashCode_loop h [] = h"
| "hashCode_loop h (c # cs) = hashCode_loop ((h XOR ucast c) * 16777619) cs"

definition hashCode :: "jsstring \<Rightarrow> int" where
  "hashCode s = uint (hashCode_loop 2166136261 s)"

subsection \<open>createBumpyGeometry (source lines 201-222)\<close>

text \<open>
  The hash of a vertex (source lines 212-213), from its coordinates as they are read
  from the position buffer when the loop reaches it:
  \<^verbatim>\<open>Math.abs(Math.sin((x * 73856093) ^ (y * 19349663) ^ (z * 83492791))) * 100000\<close>
  The three products are binary64 values; the operator \<open>^\<close> truncates them and yields
  a signed 32-bit integer, the argument of \<open>Math.sin\<close>.
\<close>

definition vertex_hash :: "vec3 \<Rightarrow> real" where
  "vertex_hash p =
     (case p of (x, y, z) \<Rightarrow>
        dbl (\<bar>dbl (sin (real_of_int (sint (ToInt32 (dbl (x * 73856093))
                                             XOR ToInt32 (dbl (y * 19349663))
                                             XOR ToInt32 (dbl (z * 83492791))))))\<bar> * 100000))"

text \<open>
  The loop over the vertices (source lines 207-218). Iteration \<open>i\<close> reads normal and
  position \<open>i\<close>, creates a generator \<open>localRng\<close> seeded with \<open>Math.floor(hash) + seed\<close>,
  calls it once, and overwrites position \<open>i\<close> by \<open>setXYZ\<close>:
  \<^verbatim>\<open>const noise = localRng() * 2 - 1;
  const displacement = 1 + noise * intensity * (0.6 + 0.4 * Math.abs(nx + ny + nz));
  pos.setXYZ(i, pos.getX(i) * displacement, pos.getY(i) * displacement, pos.getZ(i) * displacement);\<close>
  Every operation rounds to binary64, the literals \<open>0.6\<close> and \<open>0.4\<close> denote the
  binary64 values nearest to them, and \<open>setXYZ\<close> rounds each product to binary32.
\<close>

function bump_loop ::
  "nat \<Rightarrow> vec3 list \<Rightarrow> vec3 list \<Rightarrow> real \<Rightarrow> int \<Rightarrow> heap \<Rightarrow> vec3 list \<times> heap" where
  "bump_loop i pos nrm intensity seed hp =
     (if i < length pos then
        (case nrm ! i of (nx, ny, nz) \<Rightarrow>
         case pos ! i of (x, y, z) \<Rightarrow>
         case mulberry32 (\<lfloor>vertex_hash (x, y, z)\<rfloor> + seed) hp of (localRng, hp1) \<Rightarrow>
         case call_rng localRng hp1 of (u, hp2) \<Rightarrow>
           let noise = dbl (dbl (u * 2) - 1);
               displacement =
                 dbl (1 + dbl (dbl (noise * intensity)
                               * dbl (dbl (6 / 10) + dbl (dbl (4 / 10) * \<bar>dbl (dbl (nx + ny) + nz)\<bar>))))
           in bump_loop (Suc i)
                (pos[i := (fround (dbl (x * displacement)),
                           fround (dbl (y * displacement)),
                           fround (dbl (z * displacement)))])
                nrm intensity seed hp2)
      else (pos, hp))"
  by pat_completeness auto
termination
  by (relation "measure (\<lambda>(i, pos, nrm, intensity, seed, hp). length pos - i)") auto

text \<open>
  The generator \<open>rng\<close> of source line 205 is created and never called. The sphere has
  \<open>Math.max(32, segments)\<close> by \<open>Math.max(16, Math.floor(segments / 2))\<close> segments;
  \<open>segments\<close> is an integer. The result is the geometry together with the store.
\<close>

definition createBumpyGeometry ::
  "real \<Rightarrow> int \<Rightarrow> real \<Rightarrow> int \<Rightarrow> heap \<Rightarrow> geometry \<times> heap" where
  "createBumpyGeometry radius segments intensity seed hp =
     (let geom = SphereGeometry radius (max 32 segments) (max 16 (segments div 2))
      in case mulberry32 seed hp of (rng, hp0) \<Rightarrow>
         case bump_loop 0 (position geom) (normal geom) intensity seed hp0 of (pos, hp1) \<Rightarrow>
           (\<lparr>position = pos,
             normal = computeVertexNormals pos (index geom),
             index = index geom\<rparr>, hp1))"

text \<open>
  The only call (source line 230, in \<open>AsteroidMesh\<close>):
  \<^verbatim>\<open>createBumpyGeometry(1, 128, Math.max(0.02, Math.min(0.12, 0.06)), hashCode(name))\<close>
  The three literals denote the binary64 values nearest to them.
\<close>

definition AsteroidMesh_geom :: "jsstring \<Rightarrow> heap \<Rightarrow> geometry \<times> heap" where
  "AsteroidMesh_geom nm hp =
     createBumpyGeometry 1 128 (max (dbl (2 / 100)) (min (dbl (12 / 100)) (dbl (6 / 100))))
       (hashCode nm) hp"

subsection \<open>The effect of the loop on one vertex\<close>

text \<open>
  Names for the quantities of one loop iteration, used to state what the loop computes:
  the first Number a fresh generator draws, the \<open>noise\<close> of a vertex, the factor
  \<open>0.6 + 0.4 * Math.abs(nx + ny + nz)\<close> that multiplies the intensity, the
  \<open>displacement\<close>, and the scaled vector that \<open>setXYZ\<close> stores.
\<close>

definition first_draw :: "int \<Rightarrow> real" where
  "first_draw s = fst (mulberry32_body (uint (word_of_int s :: 32 word)))"

definition vertex_noise :: "int \<Rightarrow> vec3 \<Rightarrow> real" where
  "vertex_noise seed p = dbl (dbl (first_draw (\<lfloor>vertex_hash p\<rfloor> + seed) * 2) - 1)"

definition weight :: "vec3 \<Rightarrow> real" where
  "weight n =
     (case n of (nx, ny, nz) \<Rightarrow>
        dbl (dbl (6 / 10) + dbl (dbl (4 / 10) * \<bar>dbl (dbl (nx + ny) + nz)\<bar>)))"

definition displacement :: "real \<Rightarrow> int \<Rightarrow> vec3 \<Rightarrow> vec3 \<Rightarrow> real" where
  "displacement intensity seed p n =
     dbl (1 + dbl (dbl (vertex_noise seed p * intensity) * weight n))"

definition vscale :: "real \<Rightarrow> vec3 \<Rightarrow> vec3" where
  "vscale d p =
     (case p of (x, y, z) \<Rightarrow> (fround (dbl (x * d)), fround (dbl (y * d)), fround (dbl (z * d))))"

text \<open>
  Three names used to state properties and concrete inputs: the point of the sphere of
  radius \<open>r\<close> at longitude \<open>phi\<close> and polar angle \<open>theta\<close>, over the reals; the unsigned
  32-bit seed for which the generator of a vertex at position \<open>p\<close> starts from the
  state \<open>target\<close> (the generator is seeded with \<open>Math.floor(hash) + seed\<close>, reduced
  modulo \<open>2 ^ 32\<close>); and the store in which no generator has been created yet.
\<close>

definition on_sphere :: "real \<Rightarrow> real \<Rightarrow> real \<Rightarrow> vec3" where
  "on_sphere r phi theta = (- r * cos phi * sin theta, r * cos theta, r * sin phi * sin theta)"

definition seed_for :: "int \<Rightarrow> vec3 \<Rightarrow> int" where
  "seed_for target p = (target - \<lfloor>vertex_hash p\<rfloor>) mod 2 ^ 32"

definition no_closures :: heap where
  "no_closures = \<lparr>cells = (\<lambda>a. 0), next_free = 0\<rparr>"

subsection \<open>Application state and the catalogue refresh (source lines 344-396)\<close>

text \<open>
  The state of the component: the catalogue, the selected entry (\<open>None\<close> is
  \<open>undefined\<close>), the loading flag and the search text.
\<close>

record app_state =
  asteroids :: "entry list"
  selected :: "entry option"
  loading :: bool
  query :: jsstring

datatype error = TypeError

text \<open>
  Source line 382, with \<open>items\<close> the list built from the response:
  \<^verbatim>\<open>[...SAMPLE_ASTEROIDS, ...items.filter((it) => !SAMPLE_ASTEROIDS.find((s) => s.id === it.id))]\<close>
\<close>

definition merged_catalog :: "entry list \<Rightarrow> entry list" where
  "merged_catalog items =
     SAMPLE_ASTEROIDS @
     filter (\<lambda>it. find (\<lambda>s. id' s = id' it) SAMPLE_ASTEROIDS = None) items"

text \<open>
  Source line 385, the function given to \<open>setSelected\<close>:
  \<^verbatim>\<open>(prev) => merged.find((m) => m.id === prev.id) || merged[0]\<close>
  An entry is an object and so truthy; \<open>merged[0]\<close> of an empty list is \<open>undefined\<close>.
\<close>

definition keep_selection :: "entry list \<Rightarrow> entry \<Rightarrow> entry option" where
  "keep_selection merged prev =
     (case find (\<lambda>m. id' m = id' prev) merged of
        Some m \<Rightarrow> Some m
      | None \<Rightarrow> (case merged of [] \<Rightarrow> None | m # _ \<Rightarrow> Some m))"

text \<open>
  \<open>fetchNeos\<close> after a response that was parsed into \<open>items\<close> (source lines 380-391):
  a non-empty list replaces catalogue and selection, and the loading flag is cleared in
  either case. Reading \<open>prev.id\<close> of an undefined selection is a \<open>TypeError\<close>.
\<close>

definition fetchNeos_loaded :: "entry list \<Rightarrow> app_state \<Rightarrow> error + app_state" where
  "fetchNeos_loaded items st =
     (if items \<noteq> [] then
        (case selected st of
           None \<Rightarrow> Inl TypeError
         | Some prev \<Rightarrow>
             Inr (st\<lparr>asteroids := merged_catalog items,
                     selected := keep_selection (merged_catalog items) prev,
                     loading := False\<rparr>))
      else Inr (st\<lparr>loading := False\<rparr>))"

subsection \<open>Detail enrichment (source lines 399-424)\<close>

text \<open>
  The object \<open>merged\<close> of source lines 409-416, from the entry \<open>obj\<close> and the parsed
  response \<open>json\<close>; \<open>phys\<close> is \<open>json.phys || {}\<close>. The template literal converts
  \<open>phys.albedo\<close> to a string: the conversion of a Number is the runtime's and is the
  parameter \<open>num_text\<close>. \<open>obj.notable_events\<close> is an array, which is truthy.
\<close>

definition or_else :: "jsval \<Rightarrow> jsval \<Rightarrow> jsval" where
  "or_else a b = (if truthy a then a else b)"

fun to_text :: "(real \<Rightarrow> jsstring) \<Rightarrow> jsval \<Rightarrow> jsstring" where
  "to_text num_text JUndefined = str ''undefined''"
| "to_text num_text JNull = str ''null''"
| "to_text num_text (JNum x) = num_text x"
| "to_text num_text (JStr s) = s"

definition enriched :: "(real \<Rightarrow> jsstring) \<Rightarrow> entry \<Rightarrow> sbdb_json \<Rightarrow> entry" where
  "enriched num_text obj json =
     (let p = (case phys json of
                 Some p \<Rightarrow> p
               | None \<Rightarrow> \<lparr>diameter = JUndefined, H = JUndefined, albedo = JUndefined\<rparr>);
          txt = (if truthy (albedo p)
                  then name obj @ str '' '' @ [8212] @ str '' albedo: '' @ to_text num_text (albedo p)
                  else summary obj)
      in obj\<lparr>diameter_km := or_else (diameter p) (diameter_km obj),
              absolute_magnitude_h := or_else (H p) (absolute_magnitude_h obj),
              summary := (if txt \<noteq> [] then txt else summary obj),
              notable_events := notable_events obj,
              sbdb_raw := Some json\<rparr>)"

text \<open>
  \<open>fetchSBDBDetails(obj)\<close>: a response (\<open>Some json\<close>) selects the enriched entry, a
  failure of the request (\<open>None\<close>) selects \<open>obj\<close> itself; the loading flag is cleared.
\<close>

definition fetchSBDBDetails ::
  "(real \<Rightarrow> jsstring) \<Rightarrow> entry \<Rightarrow> sbdb_json option \<Rightarrow> app_state \<Rightarrow> app_state" where
  "fetchSBDBDetails num_text obj response st =
     (case response of
        Some json \<Rightarrow> st\<lparr>selected := Some (enriched num_text obj json), loading := False\<rparr>
      | None \<Rightarrow> st\<lparr>selected := Some obj, loading := False\<rparr>)"

subsection \<open>Search (source lines 437-446)\<close>

text \<open>
  \<open>trim\<close> removes the white space and line terminators of ECMAScript at both ends.
  \<open>toLowerCase\<close> is modelled on the letters A to Z; other code units are left
  unchanged (the runtime also maps letters outside ASCII). \<open>includes_js s q\<close> is
  \<open>s.includes(q)\<close>.
\<close>

definition is_space :: "16 word \<Rightarrow> bool" where
  "is_space c =
     (c \<in> set [9, 10, 11, 12, 13, 32, 160, 5760, 8232, 8233, 8239, 8287, 12288, 65279]
      \<or> (8192 \<le> c \<and> c \<le> 8202))"

definition trim :: "jsstring \<Rightarrow> jsstring" where
  "trim s = rev (dropWhile is_space (rev (dropWhile is_space s)))"

definition lower_unit :: "16 word \<Rightarrow> 16 word" where
  "lower_unit c = (if 65 \<le> c \<and> c \<le> 90 then c + 32 else c)"

definition toLowerCase :: "jsstring \<Rightarrow> jsstring" where
  "toLowerCase s = map lower_unit s"

fun includes_js :: "jsstring \<Rightarrow> jsstring \<Rightarrow> bool" where
  "includes_js [] q = (q = [])"
| "includes_js (c # s) q = (prefix q (c # s) \<or> includes_js s q)"

text \<open>
  \<^verbatim>\<open>const q = query.trim().toLowerCase();
  if (!q) return asteroids;
  return asteroids.filter((a) =>
    (a.name && a.name.toLowerCase().includes(q)) ||
    (a.designation && a.designation.toLowerCase().includes(q)) ||
    (a.id && String(a.id).toLowerCase().includes(q)));\<close>
\<close>

definition filtered :: "entry list \<Rightarrow> jsstring \<Rightarrow> entry list" where
  "filtered asts qry =
     (let q = toLowerCase (trim qry)
      in if q = [] then asts
         else filter
                (\<lambda>a. (name a \<noteq> [] \<and> includes_js (toLowerCase (name a)) q)
                   \<or> (designation a \<noteq> [] \<and> includes_js (toLowerCase (designation a)) q)
                   \<or> (id' a \<noteq> [] \<and> includes_js (toLowerCase (id' a)) q))
                asts)"

subsection \<open>Inputs used in examples\<close>

text \<open>
  An entry as the catalogue refresh builds it, with the identifier of a sample entry;
  the state in which the component starts (source lines 344-348); and a response of the
  detail lookup whose \<open>phys\<close> holds a diameter and nothing else.
\<close>

definition fetched_duplicate :: entry where
  "fetched_duplicate =
     \<lparr>id' = str ''433'', name = str ''433 Eros (A898 PA)'', designation = str ''433'',
      diameter_km = JNum 48.4, absolute_magnitude_h = JNum 10.4,
      is_potentially_hazardous = False, discovery_date = Some (str ''1893-10-29''),
      discoverer = None, summary = str ''Near-Earth object'', notable_events = [],
      sbdb_raw = None\<rparr>"

definition initial_state :: app_state where
  "initial_state =
     \<lparr>asteroids = SAMPLE_ASTEROIDS, selected = Some (SAMPLE_ASTEROIDS ! 0),
      loading = False, query = []\<rparr>"

definition diameter_only :: "jsval \<Rightarrow> sbdb_json" where
  "diameter_only d = \<lparr>phys = Some \<lparr>diameter = d, H = JUndefined, albedo = JUndefined\<rparr>\<rparr>"

section \<open>Properties\<close>

declare bump_loop.simps [simp del]

subsection \<open>What the vertex loop computes\<close>

lemma fresh_generator_draw:
  "mulberry32 s hp = (a, hp1) \<Longrightarrow> fst (call_rng a hp1) = first_draw s"
  by (auto simp: mulberry32_def call_rng_def first_draw_def split: prod.splits)

lemma bump_loop_length:
  "length (fst (bump_loop i pos nrm intensity seed hp)) = length pos"
proof (induction i pos nrm intensity seed hp rule: bump_loop.induct)
  case (1 i pos nrm intensity seed hp)
  show ?case
  proof (cases "i < length pos")
    case True
    obtain nx ny nz where n: "nrm ! i = (nx, ny, nz)" by (cases "nrm ! i") auto
    obtain x y z where p: "pos ! i = (x, y, z)" by (cases "pos ! i") auto
    obtain a hp1 where m: "mulberry32 (\<lfloor>vertex_hash (x, y, z)\<rfloor> + seed) hp = (a, hp1)"
      by (cases "mulberry32 (\<lfloor>vertex_hash (x, y, z)\<rfloor> + seed) hp") auto
    obtain u hp2 where c: "call_rng a hp1 = (u, hp2)" by (cases "call_rng a hp1") auto
    show ?thesis
      using "1.IH" [OF True, of nx "(ny, nz)" ny nz x "(y, z)" y z a hp1 u hp2, OF _ refl _ refl _ _ refl refl]
      by (subst bump_loop.simps) (simp add: True n p m c Let_def)
  next
    case False
    then show ?thesis by (subst bump_loop.simps) simp
  qed
qed

lemma bump_loop_nth:
  "j < length pos \<Longrightarrow>
   fst (bump_loop i pos nrm intensity seed hp) ! j =
     (if j < i then pos ! j
      else vscale (displacement intensity seed (pos ! j) (nrm ! j)) (pos ! j))"
proof (induction i pos nrm intensity seed hp rule: bump_loop.induct)
  case (1 i pos nrm intensity seed hp)
  show ?case
  proof (cases "i < length pos")
    case True
    obtain nx ny nz where n: "nrm ! i = (nx, ny, nz)" by (cases "nrm ! i") auto
    obtain x y z where p: "pos ! i = (x, y, z)" by (cases "pos ! i") auto
    obtain a hp1 where m: "mulberry32 (\<lfloor>vertex_hash (x, y, z)\<rfloor> + seed) hp = (a, hp1)"
      by (cases "mulberry32 (\<lfloor>vertex_hash (x, y, z)\<rfloor> + seed) hp") auto
    obtain u hp2 where c: "call_rng a hp1 = (u, hp2)" by (cases "call_rng a hp1") auto
    have u: "u = first_draw (\<lfloor>vertex_hash (x, y, z)\<rfloor> + seed)"
      using fresh_generator_draw [OF m] c by simp
    define ns where "ns = dbl (dbl (u * 2) - 1)"
    define d where "d = dbl (1 + dbl (dbl (ns * intensity)
        * dbl (dbl (6 / 10) + dbl (dbl (4 / 10) * \<bar>dbl (dbl (nx + ny) + nz)\<bar>))))"
    define q where "q = (fround (dbl (x * d)), fround (dbl (y * d)), fround (dbl (z * d)))"
    have d: "d = displacement intensity seed (pos ! i) (nrm ! i)"
      by (simp add: d_def ns_def displacement_def vertex_noise_def weight_def n p u)
    have unfold: "bump_loop i pos nrm intensity seed hp =
        bump_loop (Suc i) (pos[i := q]) nrm intensity seed hp2"
      by (subst bump_loop.simps) (simp add: True n p m c Let_def d_def ns_def q_def)
    have "j < length (pos[i := q])"
      using "1.prems" by simp
    from "1.IH" [OF True, of nx "(ny, nz)" ny nz x "(y, z)" y z a hp1 u hp2 ns d,
        OF _ refl _ refl _ _ _ _ this [unfolded q_def]]
    have IH: "fst (bump_loop (Suc i) (pos[i := q]) nrm intensity seed hp2) ! j =
       (if j < Suc i then pos[i := q] ! j
        else vscale (displacement intensity seed (pos[i := q] ! j) (nrm ! j)) (pos[i := q] ! j))"
      by (simp add: n p m c d_def ns_def q_def)
    have here: "q = vscale (displacement intensity seed (pos ! i) (nrm ! i)) (pos ! i)"
      using d by (simp add: vscale_def p q_def)
    show ?thesis
      unfolding unfold IH using True here
      by (cases "j = i") (auto simp: nth_list_update)
  next
    case False
    then show ?thesis using "1.prems" by (subst bump_loop.simps) simp
  qed
qed

lemma bump_loop_positions:
  "fst (bump_loop 0 pos nrm intensity seed hp) =
     map (\<lambda>j. vscale (displacement intensity seed (pos ! j) (nrm ! j)) (pos ! j)) [0..<length pos]"
  by (rule nth_equalityI) (simp_all add: bump_loop_length bump_loop_nth)

subsection \<open>Vertices and faces of the sphere\<close>

lemma length_concat_rows:
  "length (concat (map (\<lambda>iy. map (f iy) [0..<n]) [0..<m])) = m * n"
  by (induction m) simp_all

lemma nth_concat_rows:
  "iy < m \<Longrightarrow> ix < n \<Longrightarrow>
   concat (map (\<lambda>iy. map (f iy) [0..<n]) [0..<m]) ! (iy * n + ix) = f iy ix"
proof (induction m)
  case 0
  then show ?case by simp
next
  case (Suc m)
  show ?case
  proof (cases "iy < m")
    case True
    then have "iy * n + ix < m * n"
      using Suc.prems(2)
      by (metis Suc_leI add_less_cancel_left mult_Suc mult_le_mono1 add.commute less_le_trans)
    then show ?thesis
      using Suc.IH [OF True Suc.prems(2)] by (simp add: nth_append length_concat_rows)
  next
    case False
    then have "iy = m" using Suc.prems(1) by simp
    then show ?thesis
      using Suc.prems(2) by (simp add: nth_append length_concat_rows)
  qed
qed

lemma SphereGeometry_position:
  "position (SphereGeometry radius ws hs) =
     concat (map (\<lambda>iy. map (\<lambda>ix. store32 (sphere_vertex radius (nat (max 3 ws)) (nat (max 2 hs)) iy ix))
                          [0..<nat (max 3 ws) + 1])
               [0..<nat (max 2 hs) + 1])"
  by (simp add: SphereGeometry_def Let_def map_concat comp_def del: upt_Suc)

lemma SphereGeometry_normal:
  "normal (SphereGeometry radius ws hs) =
     concat (map (\<lambda>iy. map (\<lambda>ix. store32 (normalize_vec
                                     (sphere_vertex radius (nat (max 3 ws)) (nat (max 2 hs)) iy ix)))
                          [0..<nat (max 3 ws) + 1])
               [0..<nat (max 2 hs) + 1])"
  by (simp add: SphereGeometry_def Let_def map_concat comp_def del: upt_Suc)

lemma SphereGeometry_count:
  "length (position (SphereGeometry radius ws hs)) = (nat (max 2 hs) + 1) * (nat (max 3 ws) + 1)"
  unfolding SphereGeometry_position by (rule length_concat_rows)

lemma SphereGeometry_nth:
  assumes "iy \<le> nat (max 2 hs)" and "ix \<le> nat (max 3 ws)"
  shows "position (SphereGeometry radius ws hs) ! (iy * (nat (max 3 ws) + 1) + ix) =
      store32 (sphere_vertex radius (nat (max 3 ws)) (nat (max 2 hs)) iy ix)"
    and "normal (SphereGeometry radius ws hs) ! (iy * (nat (max 3 ws) + 1) + ix) =
      store32 (normalize_vec (sphere_vertex radius (nat (max 3 ws)) (nat (max 2 hs)) iy ix))"
proof -
  have "iy < nat (max 2 hs) + 1" "ix < nat (max 3 ws) + 1"
    using assms by simp_all
  then show "position (SphereGeometry radius ws hs) ! (iy * (nat (max 3 ws) + 1) + ix) =
      store32 (sphere_vertex radius (nat (max 3 ws)) (nat (max 2 hs)) iy ix)"
    and "normal (SphereGeometry radius ws hs) ! (iy * (nat (max 3 ws) + 1) + ix) =
      store32 (normalize_vec (sphere_vertex radius (nat (max 3 ws)) (nat (max 2 hs)) iy ix))"
    unfolding SphereGeometry_position SphereGeometry_normal by (rule nth_concat_rows)+
qed

lemma SphereGeometry_at:
  assumes "j < length (position (SphereGeometry radius ws hs))"
  shows "\<exists>iy ix. position (SphereGeometry radius ws hs) ! j =
            store32 (sphere_vertex radius (nat (max 3 ws)) (nat (max 2 hs)) iy ix)
          \<and> normal (SphereGeometry radius ws hs) ! j =
            store32 (normalize_vec (sphere_vertex radius (nat (max 3 ws)) (nat (max 2 hs)) iy ix))"
proof -
  define w where "w = nat (max 3 ws)"
  define h where "h = nat (max 2 hs)"
  have j: "j < (h + 1) * (w + 1)"
    using assms by (simp add: SphereGeometry_count w_def h_def)
  then have "j div (w + 1) < h + 1"
    by (simp add: less_mult_imp_div_less)
  then have iy: "j div (w + 1) \<le> h" by simp
  have ix: "j mod (w + 1) \<le> w"
    using mod_less_divisor [of "w + 1" j] by simp
  have "j div (w + 1) * (w + 1) + j mod (w + 1) = j"
    by (rule div_mult_mod_eq)
  with SphereGeometry_nth [OF iy [unfolded h_def] ix [unfolded w_def], of radius]
  show ?thesis
    unfolding w_def h_def by metis
qed

lemma sum_list_skip:
  "sum_list (map (\<lambda>iy. if iy \<noteq> k then c else (0::nat)) [0..<h]) = (if k < h then c * (h - 1) else c * h)"
  by (induction h) (auto simp: algebra_simps)

lemma length_row_faces:
  "(\<Sum>ix\<leftarrow>xs. length (sphere_faces w h iy ix)) =
     length xs * ((if iy \<noteq> 0 then 3 else 0) + (if iy \<noteq> h - 1 then 3 else 0))"
  by (induction xs) (simp_all add: sphere_faces_def Let_def)

lemma SphereGeometry_index_length:
  "length (index (SphereGeometry radius ws hs)) = 6 * nat (max 3 ws) * (nat (max 2 hs) - 1)"
proof -
  define w where "w = nat (max 3 ws)"
  define h where "h = nat (max 2 hs)"
  have h: "0 < h" "h - 1 < h" by (simp_all add: h_def)
  have "length (index (SphereGeometry radius ws hs)) =
      sum_list (map (\<lambda>iy. w * ((if iy \<noteq> 0 then 3 else 0) + (if iy \<noteq> h - 1 then 3 else 0))) [0..<h])"
    by (simp add: SphereGeometry_def Let_def length_concat comp_def length_row_faces
        flip: w_def h_def)
  also have "\<dots> = w * (sum_list (map (\<lambda>iy. if iy \<noteq> 0 then 3 else 0) [0..<h])
      + sum_list (map (\<lambda>iy. if iy \<noteq> h - 1 then 3 else 0) [0..<h]))"
    by (simp add: sum_list_const_mult sum_list_addf)
  also have "\<dots> = w * (3 * (h - 1) + 3 * (h - 1))"
    using h by (simp only: sum_list_skip) simp
  finally show ?thesis
    by (simp add: w_def h_def)
qed

lemma SphereGeometry_first_face:
  "take 3 (index (SphereGeometry radius ws hs)) = [0, nat (max 3 ws) + 1, nat (max 3 ws) + 2]"
proof -
  define w where "w = nat (max 3 ws)"
  define h where "h = nat (max 2 hs)"
  have h: "0 < h" "0 \<noteq> h - 1" and w: "0 < w" by (simp_all add: h_def w_def)
  have "[0..<h] = 0 # [1..<h]" "[0..<w] = 0 # [1..<w]"
    using h w by (simp_all add: upt_conv_Cons)
  then have "index (SphereGeometry radius ws hs) =
      sphere_faces w h 0 0 @ concat (map (sphere_faces w h 0) [1..<w])
        @ concat (map (\<lambda>iy. concat (map (sphere_faces w h iy) [0..<w])) [1..<h])"
    by (simp add: SphereGeometry_def Let_def flip: w_def h_def)
  moreover have "sphere_faces w h 0 0 = [0, w + 1, w + 2]"
    using h by (simp add: sphere_faces_def Let_def)
  ultimately show ?thesis
    by (simp add: w_def)
qed

lemma createBumpyGeometry_position:
  "position (fst (createBumpyGeometry radius segments intensity seed hp)) =
     (let geom = SphereGeometry radius (max 32 segments) (max 16 (segments div 2))
      in map (\<lambda>j. vscale (displacement intensity seed (position geom ! j) (normal geom ! j))
                     (position geom ! j))
           [0..<length (position geom)])"
  by (simp add: createBumpyGeometry_def Let_def split: prod.splits)
    (metis bump_loop_positions fst_conv)

lemma createBumpyGeometry_index:
  "index (fst (createBumpyGeometry radius segments intensity seed hp)) =
     index (SphereGeometry radius (max 32 segments) (max 16 (segments div 2)))"
  by (simp add: createBumpyGeometry_def Let_def split: prod.splits)

lemma createBumpyGeometry_normal:
  "normal (fst (createBumpyGeometry radius segments intensity seed hp)) =
     computeVertexNormals (position (fst (createBumpyGeometry radius segments intensity seed hp)))
       (index (fst (createBumpyGeometry radius segments intensity seed hp)))"
  by (simp add: createBumpyGeometry_def Let_def split: prod.splits)

lemma createBumpyGeometry_count:
  "length (position (fst (createBumpyGeometry radius segments intensity seed hp))) =
     (nat (max 16 (segments div 2)) + 1) * (nat (max 32 segments) + 1)"
proof -
  have "max 3 (max 32 segments) = max 32 segments" "max 2 (max 16 (segments div 2)) = max 16 (segments div 2)"
    by simp_all
  then show ?thesis
    by (simp add: createBumpyGeometry_position Let_def SphereGeometry_count)
qed

lemma createBumpyGeometry_vertex:
  assumes "j < length (position (SphereGeometry radius (max 32 segments) (max 16 (segments div 2))))"
  shows "position (fst (createBumpyGeometry radius segments intensity seed hp)) ! j =
     vscale (displacement intensity seed
               (position (SphereGeometry radius (max 32 segments) (max 16 (segments div 2))) ! j)
               (normal (SphereGeometry radius (max 32 segments) (max 16 (segments div 2))) ! j))
       (position (SphereGeometry radius (max 32 segments) (max 16 (segments div 2))) ! j)"
  using assms by (simp add: createBumpyGeometry_position Let_def)

subsection \<open>Generator draws\<close>

lemma first_draw_range: "0 \<le> first_draw s \<and> first_draw s < 1"
proof -
  obtain w :: "32 word" where w: "first_draw s = real_of_int (uint w) / 4294967296"
    by (simp add: first_draw_def mulberry32_body_def Let_def)
  define n where "n = uint w"
  have "n < 4294967296" "0 \<le> n"
    using uint_lt2p [of w] by (simp_all add: n_def)
  then show ?thesis
    unfolding w n_def [symmetric] by simp
qed

lemma first_draw_cong:
  "(word_of_int s :: 32 word) = word_of_int s' \<Longrightarrow> first_draw s = first_draw s'"
  by (simp add: first_draw_def)

lemma first_draw_seed_for: "first_draw (\<lfloor>vertex_hash p\<rfloor> + seed_for target p) = first_draw target"
proof (rule first_draw_cong)
  show "(word_of_int (\<lfloor>vertex_hash p\<rfloor> + seed_for target p) :: 32 word) = word_of_int target"
    unfolding seed_for_def word_of_int_eq_iff take_bit_eq_mod
    by (simp add: mod_add_right_eq)
qed


lemma first_draw_35: "first_draw 35 = 32013594 / 4294967296"
  by (simp add: first_draw_def mulberry32_body_def Let_def)

lemma first_draw_36: "first_draw 36 = 4106669352 / 4294967296"
  by (simp add: first_draw_def mulberry32_body_def Let_def)

subsection \<open>Rounding errors\<close>

lemma rne_err: "\<bar>of_int (rne x) - x\<bar> \<le> 1 / 2"
proof -
  have "of_int \<lfloor>x\<rfloor> \<le> x" "x < of_int \<lfloor>x\<rfloor> + 1"
    by linarith+
  then show ?thesis
    by (auto simp: rne_def Let_def)
qed

lemma round_to_zero [simp]: "round_to p emin 0 = 0"
  by (simp add: round_to_def)

lemma two_powi_floor_log: 
  assumes "0 < y"
  shows "2 powi \<lfloor>log 2 y\<rfloor> \<le> y"
proof -
  have "(2::real) powr (of_int \<lfloor>log 2 y\<rfloor>) \<le> y"
    using assms floor_log_eq_powr_iff [of y 2 "\<lfloor>log 2 y\<rfloor>"] by simp
  then show ?thesis
    by (simp add: powr_real_of_int')
qed

lemma round_to_err:
  "\<bar>round_to p emin x - x\<bar> \<le> \<bar>x\<bar> / 2 ^ p + 2 powi (emin - int p)"
proof (cases "x = 0")
  case True
  then show ?thesis by simp
next
  case False
  define e where "e = max \<lfloor>log 2 \<bar>x\<bar>\<rfloor> emin"
  define q :: real where "q = 2 powi (e - int p + 1)"
  have q: "0 < q" by (simp add: q_def)
  have r: "round_to p emin x = of_int (rne (x / q)) * q"
    using False by (simp add: round_to_def Let_def e_def q_def)
  have "of_int (rne (x / q)) * q - x = (of_int (rne (x / q)) - x / q) * q"
    using q by (simp add: left_diff_distrib)
  then have "\<bar>of_int (rne (x / q)) * q - x\<bar> = \<bar>of_int (rne (x / q)) - x / q\<bar> * q"
    using q by (simp add: abs_mult)
  also have "\<dots> \<le> 1 / 2 * q"
    using q rne_err [of "x / q"] by (intro mult_right_mono) simp_all
  also have "\<dots> = 2 powi (e - int p)"
    by (simp add: q_def power_int_add)
  finally have err: "\<bar>round_to p emin x - x\<bar> \<le> 2 powi (e - int p)"
    by (simp add: r)
  show ?thesis
  proof (cases "emin \<le> \<lfloor>log 2 \<bar>x\<bar>\<rfloor>")
    case True
    then have "e = \<lfloor>log 2 \<bar>x\<bar>\<rfloor>" by (simp add: e_def)
    then have "(2::real) powi e \<le> \<bar>x\<bar>"
      using two_powi_floor_log [of "\<bar>x\<bar>"] False by simp
    then have "(2::real) powi (e - int p) \<le> \<bar>x\<bar> / 2 ^ p"
      by (simp add: power_int_diff divide_right_mono)
    moreover have "(0::real) \<le> 2 powi (emin - int p)" by simp
    ultimately show ?thesis using err by linarith
  next
    case False
    then have "e = emin" by (simp add: e_def)
    then have "\<bar>round_to p emin x - x\<bar> \<le> 2 powi (emin - int p)"
      using err by simp
    moreover have "0 \<le> \<bar>x\<bar> / 2 ^ p" by simp
    ultimately show ?thesis by linarith
  qed
qed

lemma dbl_err: "\<bar>dbl x - x\<bar> \<le> \<bar>x\<bar> / 2 ^ 53 + 1 / 2 ^ 1075"
  using round_to_err [of 53 "-1022" x] by (simp add: dbl_def power_int_minus inverse_eq_divide)

lemma fround_err: "\<bar>fround x - x\<bar> \<le> \<bar>x\<bar> / 2 ^ 24 + 1 / 2 ^ 150"
  using round_to_err [of 24 "-126" x] by (simp add: fround_def power_int_minus inverse_eq_divide)

lemma dbl_zero [simp]: "dbl 0 = 0"
  by (simp add: dbl_def)

lemma fround_zero [simp]: "fround 0 = 0"
  by (simp add: fround_def)

lemma dbl_coarse:
  assumes "1 / 2 ^ 200 \<le> M" and "\<bar>x\<bar> \<le> M"
  shows "\<bar>dbl x - x\<bar> \<le> M / 2 ^ 52"
proof -
  have "\<bar>x\<bar> / 2 ^ 53 \<le> M / 2 ^ 53"
    using assms(2) by (simp add: divide_right_mono)
  moreover have "(1::real) / 2 ^ 1075 \<le> (1 / 2 ^ 200) / 2 ^ 53"
    by simp
  moreover have "(1 / 2 ^ 200) / 2 ^ 53 \<le> M / (2 ^ 53 :: real)"
    using assms(1) by (intro divide_right_mono) simp_all
  ultimately show ?thesis
    using dbl_err [of x] by simp
qed

lemma fround_coarse:
  assumes "1 / 2 ^ 110 \<le> M" and "\<bar>x\<bar> \<le> M"
  shows "\<bar>fround x - x\<bar> \<le> M / 2 ^ 23"
proof -
  have "\<bar>x\<bar> / 2 ^ 24 \<le> M / 2 ^ 24"
    using assms(2) by (simp add: divide_right_mono)
  moreover have "(1::real) / 2 ^ 150 \<le> (1 / 2 ^ 110) / 2 ^ 24"
    by simp
  moreover have "(1 / 2 ^ 110) / 2 ^ 24 \<le> M / (2 ^ 24 :: real)"
    using assms(1) by (intro divide_right_mono) simp_all
  ultimately show ?thesis
    using fround_err [of x] by simp
qed

lemma abs_prod_le:
  fixes a b :: real
  assumes "\<bar>a\<bar> \<le> A" and "\<bar>b\<bar> \<le> B"
  shows "\<bar>a * b\<bar> \<le> A * B"
  unfolding abs_mult using assms by (intro mult_mono) simp_all

lemma prod_err:
  fixes a b a0 b0 :: real
  assumes "\<bar>a - a0\<bar> \<le> ea" and "\<bar>b - b0\<bar> \<le> eb" and "\<bar>a0\<bar> \<le> A" and "\<bar>b0\<bar> \<le> B"
  shows "\<bar>a * b - a0 * b0\<bar> \<le> ea * B + A * eb + ea * eb"
proof -
  have "a * b - a0 * b0 = (a - a0) * b0 + a0 * (b - b0) + (a - a0) * (b - b0)"
    by (simp add: algebra_simps)
  moreover have "\<bar>(a - a0) * b0\<bar> \<le> ea * B"
    by (rule abs_prod_le [OF assms(1,4)])
  moreover have "\<bar>a0 * (b - b0)\<bar> \<le> A * eb"
    by (rule abs_prod_le [OF assms(3,2)])
  moreover have "\<bar>(a - a0) * (b - b0)\<bar> \<le> ea * eb"
    by (rule abs_prod_le [OF assms(1,2)])
  ultimately show ?thesis
    by linarith
qed

lemma dbl_op:
  assumes "1 / 2 ^ 200 \<le> M" and "\<bar>y - y0\<bar> \<le> e" and "\<bar>y0\<bar> + e \<le> M"
  shows "\<bar>dbl y - y0\<bar> \<le> e + M / 2 ^ 52"
proof -
  have "\<bar>y\<bar> \<le> M" using assms(2,3) by linarith
  from dbl_coarse [OF assms(1) this] assms(2) show ?thesis by linarith
qed

lemma fround_op:
  assumes "1 / 2 ^ 110 \<le> M" and "\<bar>y - y0\<bar> \<le> e" and "\<bar>y0\<bar> + e \<le> M"
  shows "\<bar>fround y - y0\<bar> \<le> e + M / 2 ^ 23"
proof -
  have "\<bar>y\<bar> \<le> M" using assms(2,3) by linarith
  from fround_coarse [OF assms(1) this] assms(2) show ?thesis by linarith
qed

subsection \<open>Euclidean length\<close>

lemma vlength_nonneg [simp]: "0 \<le> vlength v"
  by (cases v) (simp add: vlength_def)

lemma vlength_sq: "vlength (x, y, z) * vlength (x, y, z) = x * x + y * y + z * z"
  by (simp add: vlength_def)

lemma abs_le_vlength: "\<bar>x\<bar> \<le> vlength (x, y, z)" "\<bar>y\<bar> \<le> vlength (x, y, z)" "\<bar>z\<bar> \<le> vlength (x, y, z)"
proof -
  have "0 \<le> x * x" "0 \<le> y * y" "0 \<le> z * z"
    by simp_all
  then have "\<bar>x\<bar>\<^sup>2 \<le> x * x + y * y + z * z" "\<bar>y\<bar>\<^sup>2 \<le> x * x + y * y + z * z"
    "\<bar>z\<bar>\<^sup>2 \<le> x * x + y * y + z * z"
    by (simp_all add: power2_eq_square)
  then show "\<bar>x\<bar> \<le> vlength (x, y, z)" "\<bar>y\<bar> \<le> vlength (x, y, z)" "\<bar>z\<bar> \<le> vlength (x, y, z)"
    unfolding vlength_def prod.case by (simp_all add: real_le_rsqrt)
qed

lemma vlength_le_sum: "vlength (x, y, z) \<le> \<bar>x\<bar> + \<bar>y\<bar> + \<bar>z\<bar>"
proof -
  define c where "c = \<bar>x\<bar> * \<bar>y\<bar> + \<bar>x\<bar> * \<bar>z\<bar> + \<bar>y\<bar> * \<bar>z\<bar>"
  have "(\<bar>x\<bar> + \<bar>y\<bar> + \<bar>z\<bar>)\<^sup>2 = (x * x + y * y + z * z) + 2 * c"
    by (simp add: c_def power2_eq_square algebra_simps)
  moreover have "0 \<le> c"
    unfolding c_def by (intro add_nonneg_nonneg mult_nonneg_nonneg) simp_all
  ultimately have "x * x + y * y + z * z \<le> (\<bar>x\<bar> + \<bar>y\<bar> + \<bar>z\<bar>)\<^sup>2"
    by linarith
  moreover have "0 \<le> \<bar>x\<bar> + \<bar>y\<bar> + \<bar>z\<bar>"
    by simp
  ultimately show ?thesis
    unfolding vlength_def prod.case by (simp add: real_le_lsqrt)
qed

lemma vlength_triangle:
  "vlength (a1 + b1, a2 + b2, a3 + b3) \<le> vlength (a1, a2, a3) + vlength (b1, b2, b3)"
proof -
  define sa where "sa = sqrt (a1\<^sup>2 + a2\<^sup>2)"
  define sb where "sb = sqrt (b1\<^sup>2 + b2\<^sup>2)"
  have 1: "sqrt ((a1 + b1)\<^sup>2 + (a2 + b2)\<^sup>2) \<le> sa + sb"
    unfolding sa_def sb_def by (rule real_sqrt_sum_squares_triangle_ineq)
  have "(a1 + b1)\<^sup>2 + (a2 + b2)\<^sup>2 \<le> (sa + sb)\<^sup>2"
  proof -
    have "(a1 + b1)\<^sup>2 + (a2 + b2)\<^sup>2 = (sqrt ((a1 + b1)\<^sup>2 + (a2 + b2)\<^sup>2))\<^sup>2"
      by simp
    also have "\<dots> \<le> (sa + sb)\<^sup>2"
      using 1 by (intro power_mono) simp_all
    finally show ?thesis .
  qed
  then have "sqrt ((a1 + b1)\<^sup>2 + (a2 + b2)\<^sup>2 + (a3 + b3)\<^sup>2) \<le> sqrt ((sa + sb)\<^sup>2 + (a3 + b3)\<^sup>2)"
    by simp
  also have "\<dots> \<le> sqrt (sa\<^sup>2 + a3\<^sup>2) + sqrt (sb\<^sup>2 + b3\<^sup>2)"
    by (rule real_sqrt_sum_squares_triangle_ineq)
  also have "\<dots> = sqrt (a1\<^sup>2 + a2\<^sup>2 + a3\<^sup>2) + sqrt (b1\<^sup>2 + b2\<^sup>2 + b3\<^sup>2)"
    by (simp add: sa_def sb_def)
  finally show ?thesis
    by (simp add: vlength_def power2_eq_square)
qed

lemma vlength_close:
  assumes "\<bar>p1 - q1\<bar> \<le> d" and "\<bar>p2 - q2\<bar> \<le> d" and "\<bar>p3 - q3\<bar> \<le> d"
  shows "\<bar>vlength (p1, p2, p3) - vlength (q1, q2, q3)\<bar> \<le> 3 * d"
proof -
  have le: "vlength (p1 - q1, p2 - q2, p3 - q3) \<le> 3 * d"
    using vlength_le_sum [of "p1 - q1" "p2 - q2" "p3 - q3"] assms by linarith
  have "vlength (p1, p2, p3) \<le> vlength (q1, q2, q3) + vlength (p1 - q1, p2 - q2, p3 - q3)"
    using vlength_triangle [of q1 "p1 - q1" q2 "p2 - q2" q3 "p3 - q3"] by simp
  moreover have "vlength (q1, q2, q3) \<le> vlength (p1, p2, p3) + vlength (q1 - p1, q2 - p2, q3 - p3)"
    using vlength_triangle [of p1 "q1 - p1" p2 "q2 - p2" p3 "q3 - p3"] by simp
  moreover have "vlength (q1 - p1, q2 - p2, q3 - p3) = vlength (p1 - q1, p2 - q2, p3 - q3)"
    by (simp add: vlength_def algebra_simps)
  ultimately show ?thesis
    using le by linarith
qed

lemma vlength_scale: "vlength (x * d, y * d, z * d) = \<bar>d\<bar> * vlength (x, y, z)"
proof -
  have "x * d * (x * d) + y * d * (y * d) + z * d * (z * d) = d\<^sup>2 * (x * x + y * y + z * z)"
    by algebra
  then show ?thesis
    by (simp add: vlength_def real_sqrt_mult)
qed

lemma vlength_on_sphere: "0 \<le> r \<Longrightarrow> vlength (on_sphere r phi theta) = r"
proof -
  assume r: "0 \<le> r"
  define x where "x = - r * cos phi * sin theta"
  define y where "y = r * cos theta"
  define z where "z = r * sin phi * sin theta"
  have "x * x + y * y + z * z
      = r\<^sup>2 * ((sin theta)\<^sup>2 * ((cos phi)\<^sup>2 + (sin phi)\<^sup>2) + (cos theta)\<^sup>2)"
    unfolding x_def y_def z_def by algebra
  also have "\<dots> = r\<^sup>2"
    by simp
  finally have sq: "x * x + y * y + z * z = r\<^sup>2" .
  have "vlength (on_sphere r phi theta) = sqrt (x * x + y * y + z * z)"
    by (simp add: vlength_def on_sphere_def x_def y_def z_def)
  then show ?thesis
    using r by (simp only: sq real_sqrt_abs abs_of_nonneg)
qed

lemma dbl_unit: "\<bar>t\<bar> \<le> 1 \<Longrightarrow> \<bar>dbl t - t\<bar> \<le> 1 / 2 ^ 52"
  using dbl_coarse [of 1 t] by simp

lemma scaled_product:
  fixes k r c s :: real
  assumes r: "1 / 2 ^ 100 \<le> r" and c: "\<bar>c\<bar> \<le> 1" and s: "\<bar>s\<bar> \<le> 1" and k: "\<bar>k\<bar> = 1"
  shows "\<bar>dbl (dbl (k * r * dbl c) * dbl s) - k * r * c * s\<bar> \<le> r / 2 ^ 49" (is ?two)
    and "\<bar>dbl (k * r * dbl c) - k * r * c\<bar> \<le> r / 2 ^ 50" (is ?one)
proof -
  have "(0::real) < 1 / 2 ^ 100" by simp
  then have r0: "0 < r" using r by linarith
  have kr: "\<bar>k * r\<bar> \<le> r" using k r0 by (simp add: abs_mult)
  have krc: "\<bar>k * r * c\<bar> \<le> r"
    using abs_prod_le [OF kr c] by simp
  have c1: "\<bar>dbl c - c\<bar> \<le> 1 / 2 ^ 52" by (rule dbl_unit [OF c])
  have s1: "\<bar>dbl s - s\<bar> \<le> 1 / 2 ^ 52" by (rule dbl_unit [OF s])
  have "\<bar>k * r * dbl c - k * r * c\<bar> \<le> 0 * 1 + r * (1 / 2 ^ 52) + 0 * (1 / 2 ^ 52)"
    by (rule prod_err [OF _ c1 kr c]) simp
  then have e1: "\<bar>k * r * dbl c - k * r * c\<bar> \<le> r / 2 ^ 52" by simp
  have big: "(1::real) / 2 ^ 200 \<le> 2 * r" using r by simp
  have "\<bar>dbl (k * r * dbl c) - k * r * c\<bar> \<le> r / 2 ^ 52 + 2 * r / 2 ^ 52"
    by (rule dbl_op [OF big e1]) (use krc r0 in simp)
  then have a: "\<bar>dbl (k * r * dbl c) - k * r * c\<bar> \<le> 3 * r / 2 ^ 52" by simp
  then show ?one using r0 by simp
  have "\<bar>dbl (k * r * dbl c) * dbl s - k * r * c * s\<bar>
      \<le> 3 * r / 2 ^ 52 * 1 + r * (1 / 2 ^ 52) + 3 * r / 2 ^ 52 * (1 / 2 ^ 52)"
    by (rule prod_err [OF a s1 krc s])
  then have e2: "\<bar>dbl (k * r * dbl c) * dbl s - k * r * c * s\<bar> \<le> 5 * r / 2 ^ 52"
    using r0 by simp
  have krcs: "\<bar>k * r * c * s\<bar> \<le> r"
    using abs_prod_le [OF krc s] by simp
  have "\<bar>dbl (dbl (k * r * dbl c) * dbl s) - k * r * c * s\<bar> \<le> 5 * r / 2 ^ 52 + 2 * r / 2 ^ 52"
    by (rule dbl_op [OF big e2]) (use krcs r0 in simp)
  then show ?two using r0 by simp
qed

lemma sqrt_close:
  fixes L S t :: real
  assumes L: "0 \<le> L" and t: "0 \<le> t" "t \<le> 1" and S: "\<bar>S - L * L\<bar> \<le> L * L * t"
  shows "\<bar>sqrt S - L\<bar> \<le> L * t"
proof -
  have LL: "0 \<le> L * L" by simp
  have e1: "L * L * (1 + t) = L * L + L * L * t" and e2: "L * L * (1 - t) = L * L - L * L * t"
    and e3: "L * (1 + t) = L + L * t" and e4: "L * (1 - t) = L - L * t"
    by (simp_all add: algebra_simps)
  have "(1 + t) * 1 \<le> (1 + t) * (1 + t)"
    using t by (intro mult_left_mono) simp_all
  then have a: "L * L * (1 + t) \<le> L * L * ((1 + t) * (1 + t))"
    using LL by (intro mult_left_mono) simp_all
  have b: "S \<le> L * L * (1 + t)"
    unfolding e1 using S by linarith
  have c: "(L * (1 + t))\<^sup>2 = L * L * ((1 + t) * (1 + t))"
    by (simp add: power2_eq_square algebra_simps)
  have "S \<le> (L * (1 + t))\<^sup>2"
    using a b c by linarith
  moreover have "0 \<le> L * (1 + t)" using L t by simp
  ultimately have up: "sqrt S \<le> L * (1 + t)"
    by (simp add: real_le_lsqrt)
  have "(1 - t) * (1 - t) \<le> (1 - t) * 1"
    using t by (intro mult_left_mono) simp_all
  then have a': "L * L * ((1 - t) * (1 - t)) \<le> L * L * (1 - t)"
    using LL by (intro mult_left_mono) simp_all
  have b': "L * L * (1 - t) \<le> S"
    unfolding e2 using S by linarith
  have c': "(L * (1 - t))\<^sup>2 = L * L * ((1 - t) * (1 - t))"
    by (simp add: power2_eq_square algebra_simps)
  have "(L * (1 - t))\<^sup>2 \<le> S"
    using a' b' c' by linarith
  then have lo: "L * (1 - t) \<le> sqrt S"
    by (rule real_le_rsqrt)
  have "sqrt S \<le> L + L * t" "L - L * t \<le> sqrt S"
    using up lo by (simp_all only: e3 e4)
  then show ?thesis
    by linarith
qed

lemma inv_close:
  fixes L l t :: real
  assumes L: "0 < L" and t: "0 \<le> t" "t \<le> 1 / 2" and l: "\<bar>l - L\<bar> \<le> L * t"
  shows "\<bar>1 / l - 1 / L\<bar> \<le> 1 / L * (2 * t)" and "0 < l"
proof -
  have "L * t \<le> L * (1 / 2)"
    using L t by (intro mult_left_mono) simp_all
  then have half: "L / 2 \<le> l"
    using l by linarith
  then show l0: "0 < l" using L by linarith
  have "1 / l - 1 / L = (L - l) / (l * L)"
    using L l0 by (simp add: field_simps)
  then have "\<bar>1 / l - 1 / L\<bar> = \<bar>L - l\<bar> / (l * L)"
    using L l0 by (simp add: abs_mult)
  also have "\<dots> \<le> (L * t) / (L / 2 * L)"
  proof (rule frac_le)
    show "0 \<le> L * t" using L t by simp
    show "\<bar>L - l\<bar> \<le> L * t" using l by linarith
    show "0 < L / 2 * L" using L by simp
    show "L / 2 * L \<le> l * L" using half L by (intro mult_right_mono) simp_all
  qed
  also have "\<dots> = 1 / L * (2 * t)"
    using L by (simp add: field_simps)
  finally show "\<bar>1 / l - 1 / L\<bar> \<le> 1 / L * (2 * t)" .
qed

lemma length_vec_close:
  assumes lo: "1 / 2 ^ 100 \<le> vlength v"
  shows "\<bar>length_vec v - vlength v\<bar> \<le> vlength v / 2 ^ 48"
proof -
  obtain x y z where v: "v = (x, y, z)" by (cases v) auto
  define L where "L = vlength v"
  define Q where "Q = L * L"
  have "(0::real) < 1 / 2 ^ 100" by simp
  then have L0: "0 < L" using lo by (simp add: L_def) 
  have Q: "Q = x * x + y * y + z * z"
    by (simp add: Q_def L_def v vlength_sq)
  have sq: "0 \<le> x * x" "0 \<le> y * y" "0 \<le> z * z" by simp_all
  have "1 / 2 ^ 100 * (1 / 2 ^ 100) \<le> L * L"
    using lo by (intro mult_mono) (simp_all add: L_def)
  then have Qlo: "1 / 2 ^ 200 \<le> Q"
    by (simp add: Q_def)
  have Q0: "0 < Q" using L0 by (simp add: Q_def)
  have sx: "\<bar>dbl (x * x) - x * x\<bar> \<le> Q / 2 ^ 52"
    by (rule dbl_coarse [OF Qlo]) (use sq Q in simp)
  have sy: "\<bar>dbl (y * y) - y * y\<bar> \<le> Q / 2 ^ 52"
    by (rule dbl_coarse [OF Qlo]) (use sq Q in simp)
  have sz: "\<bar>dbl (z * z) - z * z\<bar> \<le> Q / 2 ^ 52"
    by (rule dbl_coarse [OF Qlo]) (use sq Q in simp)
  have Q2: "1 / 2 ^ 200 \<le> 2 * Q" using Qlo Q0 by linarith
  have "\<bar>dbl (x * x) + dbl (y * y) - (x * x + y * y)\<bar> \<le> 2 * Q / 2 ^ 52"
    using sx sy by linarith
  then have "\<bar>dbl (dbl (x * x) + dbl (y * y)) - (x * x + y * y)\<bar> \<le> 2 * Q / 2 ^ 52 + 2 * Q / 2 ^ 52"
    by (rule dbl_op [OF Q2]) (use sq Q Q0 in simp)
  then have "\<bar>dbl (dbl (x * x) + dbl (y * y)) + dbl (z * z) - Q\<bar> \<le> 5 * Q / 2 ^ 52"
    using sz Q by linarith
  then have "\<bar>dbl (dbl (dbl (x * x) + dbl (y * y)) + dbl (z * z)) - Q\<bar> \<le> 5 * Q / 2 ^ 52 + 2 * Q / 2 ^ 52"
    by (rule dbl_op [OF Q2]) (use Q0 in simp)
  then have S: "\<bar>dbl (dbl (dbl (x * x) + dbl (y * y)) + dbl (z * z)) - L * L\<bar> \<le> L * L * (1 / 2 ^ 49)"
    using Q0 by (simp add: Q_def)
  have rt: "\<bar>sqrt (dbl (dbl (dbl (x * x) + dbl (y * y)) + dbl (z * z))) - L\<bar> \<le> L * (1 / 2 ^ 49)"
    by (rule sqrt_close [OF _ _ _ S]) (use L0 in simp_all)
  have L2: "1 / 2 ^ 200 \<le> 2 * L" using lo by (simp add: L_def)
  have "\<bar>dbl (sqrt (dbl (dbl (dbl (x * x) + dbl (y * y)) + dbl (z * z)))) - L\<bar>
      \<le> L * (1 / 2 ^ 49) + 2 * L / 2 ^ 52"
    by (rule dbl_op [OF L2 rt]) (use L0 in simp)
  then have "\<bar>length_vec v - L\<bar> \<le> L / 2 ^ 48"
    using L0 by (simp add: length_vec_def v)
  then show ?thesis
    by (simp only: L_def)
qed

lemma normalize_component:
  fixes a L s :: real
  assumes L: "0 < L" and a: "\<bar>a\<bar> \<le> L" and s: "\<bar>s - 1 / L\<bar> \<le> 1 / L / 2 ^ 46"
  shows "\<bar>dbl (a * s) - a / L\<bar> \<le> 1 / 2 ^ 45" and "\<bar>fround (dbl (a * s)) - a / L\<bar> \<le> 1 / 2 ^ 21"
proof -
  have K: "\<bar>1 / L\<bar> \<le> 1 / L" using L by simp
  have "\<bar>a * s - a * (1 / L)\<bar> \<le> 0 * (1 / L) + L * (1 / L / 2 ^ 46) + 0 * (1 / L / 2 ^ 46)"
    by (rule prod_err [OF _ s a K]) simp
  then have e: "\<bar>a * s - a / L\<bar> \<le> 1 / 2 ^ 46"
    using L by simp
  have "\<bar>a * (1 / L)\<bar> \<le> L * (1 / L)"
    by (rule abs_prod_le [OF a K])
  then have unit: "\<bar>a / L\<bar> \<le> 1"
    using L by simp
  have "\<bar>dbl (a * s) - a / L\<bar> \<le> 1 / 2 ^ 46 + 2 / 2 ^ 52"
    by (rule dbl_op [OF _ e]) (use unit in simp_all)
  then show d: "\<bar>dbl (a * s) - a / L\<bar> \<le> 1 / 2 ^ 45"
    by simp
  have "\<bar>fround (dbl (a * s)) - a / L\<bar> \<le> 1 / 2 ^ 45 + 2 / 2 ^ 23"
    by (rule fround_op [OF _ d]) (use unit in simp_all)
  then show "\<bar>fround (dbl (a * s)) - a / L\<bar> \<le> 1 / 2 ^ 21"
    by simp
qed

lemma normalize_scale:
  assumes lo: "1 / 2 ^ 100 \<le> vlength v" and hi: "vlength v \<le> 2 ^ 100"
  shows "length_vec v \<noteq> 0"
    and "\<bar>dbl (1 / length_vec v) - 1 / vlength v\<bar> \<le> 1 / vlength v / 2 ^ 46"
proof -
  define L where "L = vlength v"
  define K where "K = 1 / L"
  have "(0::real) < 1 / 2 ^ 100" by simp
  then have L0: "0 < L" using lo by (simp add: L_def)
  have "\<bar>length_vec v - L\<bar> \<le> L / 2 ^ 48"
    unfolding L_def by (rule length_vec_close [OF lo])
  then have l: "\<bar>length_vec v - L\<bar> \<le> L * (1 / 2 ^ 48)" by simp
  have inv: "\<bar>1 / length_vec v - 1 / L\<bar> \<le> 1 / L * (2 * (1 / 2 ^ 48))" and pos: "0 < length_vec v"
    by (rule inv_close [OF L0 _ _ l]; simp)+
  from pos show "length_vec v \<noteq> 0" by simp
  have "1 / 2 ^ 100 \<le> 1 / L"
    using hi L0 by (simp add: L_def field_simps)
  then have Klo: "1 / 2 ^ 100 \<le> K" by (simp add: K_def)
  then have big: "1 / 2 ^ 200 \<le> 2 * K"
    by simp
  have K0: "0 < K" using L0 by (simp add: K_def)
  have inv': "\<bar>1 / length_vec v - K\<bar> \<le> K / 2 ^ 47"
    using inv by (simp add: K_def)
  have "\<bar>dbl (1 / length_vec v) - K\<bar> \<le> K / 2 ^ 47 + 2 * K / 2 ^ 52"
    by (rule dbl_op [OF big inv']) (use K0 in simp)
  then have "\<bar>dbl (1 / length_vec v) - K\<bar> \<le> K / 2 ^ 46"
    using K0 by simp
  then show "\<bar>dbl (1 / length_vec v) - 1 / vlength v\<bar> \<le> 1 / vlength v / 2 ^ 46"
    by (simp only: K_def L_def)
qed

lemma stored_normal_close:
  assumes lo: "1 / 2 ^ 100 \<le> vlength (x, y, z)" and hi: "vlength (x, y, z) \<le> 2 ^ 100"
    and n: "store32 (normalize_vec (x, y, z)) = (nx, ny, nz)"
  shows "\<bar>nx - x / vlength (x, y, z)\<bar> \<le> 1 / 2 ^ 21"
    and "\<bar>ny - y / vlength (x, y, z)\<bar> \<le> 1 / 2 ^ 21"
    and "\<bar>nz - z / vlength (x, y, z)\<bar> \<le> 1 / 2 ^ 21"
proof -
  define L where "L = vlength (x, y, z)"
  define s where "s = dbl (1 / length_vec (x, y, z))"
  have "(0::real) < 1 / 2 ^ 100" by simp
  then have L0: "0 < L" using lo by (simp add: L_def)
  have s: "\<bar>s - 1 / L\<bar> \<le> 1 / L / 2 ^ 46"
    unfolding s_def L_def by (rule normalize_scale [OF lo hi])
  have ne: "length_vec (x, y, z) \<noteq> 0"
    by (rule normalize_scale [OF lo hi])
  have nv: "normalize_vec (x, y, z) = (dbl (x * s), dbl (y * s), dbl (z * s))"
    using ne by (simp add: normalize_vec_def Let_def s_def)
  have n': "nx = fround (dbl (x * s))" "ny = fround (dbl (y * s))" "nz = fround (dbl (z * s))"
    using n by (simp_all add: nv store32_def)
  have a: "\<bar>x\<bar> \<le> L" "\<bar>y\<bar> \<le> L" "\<bar>z\<bar> \<le> L"
    unfolding L_def by (rule abs_le_vlength)+
  show "\<bar>nx - x / vlength (x, y, z)\<bar> \<le> 1 / 2 ^ 21"
    "\<bar>ny - y / vlength (x, y, z)\<bar> \<le> 1 / 2 ^ 21"
    "\<bar>nz - z / vlength (x, y, z)\<bar> \<le> 1 / 2 ^ 21"
    unfolding n' L_def [symmetric]
    by (rule normalize_component [OF L0 _ s]; rule a)+
qed

lemma unit_direction_sum:
  assumes "0 < vlength (x, y, z)"
  shows "\<bar>x / vlength (x, y, z) + y / vlength (x, y, z) + z / vlength (x, y, z)\<bar> \<le> sqrt 3"
proof -
  define L where "L = vlength (x, y, z)"
  define a where "a = x / L"
  define b where "b = y / L"
  define c where "c = z / L"
  have L0: "0 < L" using assms by (simp add: L_def)
  have "a * a + b * b + c * c = (x * x + y * y + z * z) / (L * L)"
    unfolding a_def b_def c_def using L0 by (simp add: field_simps)
  also have "\<dots> = 1"
    using L0 by (simp add: L_def vlength_sq [symmetric])
  finally have unit: "a * a + b * b + c * c = 1" .
  define T where "T = (a - b)\<^sup>2 + (b - c)\<^sup>2 + (a - c)\<^sup>2"
  define U where "U = (a + b + c)\<^sup>2"
  define S where "S = a * a + b * b + c * c"
  have "U + T = 3 * S"
    unfolding U_def T_def S_def by algebra
  moreover have "0 \<le> T"
    by (simp add: T_def)
  moreover have "S = 1"
    using unit by (simp add: S_def)
  ultimately have "U \<le> 3"
    by linarith
  then have "\<bar>a + b + c\<bar>\<^sup>2 \<le> 3"
    by (simp add: U_def)
  then have "\<bar>a + b + c\<bar> \<le> sqrt 3"
    by (rule real_le_rsqrt)
  then show ?thesis
    by (simp only: a_def b_def c_def L_def)
qed

lemma dbl_op2: "\<bar>y - y0\<bar> \<le> e \<Longrightarrow> \<bar>y0\<bar> + e \<le> 2 \<Longrightarrow> \<bar>dbl y - y0\<bar> \<le> e + 2 / 2 ^ 52"
  by (rule dbl_op) simp_all

lemma dbl_op4: "\<bar>y - y0\<bar> \<le> e \<Longrightarrow> \<bar>y0\<bar> + e \<le> 4 \<Longrightarrow> \<bar>dbl y - y0\<bar> \<le> e + 4 / 2 ^ 52"
  by (rule dbl_op) simp_all

lemma weight_close:
  fixes a b c :: real
  assumes n: "\<bar>nx - a\<bar> \<le> 1 / 2 ^ 21" "\<bar>ny - b\<bar> \<le> 1 / 2 ^ 21" "\<bar>nz - c\<bar> \<le> 1 / 2 ^ 21"
    and u: "\<bar>a\<bar> \<le> 1" "\<bar>b\<bar> \<le> 1" "\<bar>c\<bar> \<le> 1"
  shows "\<bar>weight (nx, ny, nz) - (6 / 10 + 4 / 10 * \<bar>a + b + c\<bar>)\<bar> \<le> 1 / 2 ^ 20"
proof -
  define t1 where "t1 = dbl (nx + ny)"
  define t2 where "t2 = dbl (t1 + nz)"
  define w1 where "w1 = dbl (dbl (4 / 10) * \<bar>t2\<bar>)"
  define s where "s = \<bar>a + b + c\<bar>"
  have e0: "\<bar>nx + ny - (a + b)\<bar> \<le> 2 / 2 ^ 21"
    using n by linarith
  have b0: "\<bar>a + b\<bar> + 2 / 2 ^ 21 \<le> 4"
    using u by (simp; linarith?)
  have e1: "\<bar>t1 - (a + b)\<bar> \<le> 2 / 2 ^ 21 + 4 / 2 ^ 52"
    unfolding t1_def by (rule dbl_op4 [OF e0 b0])
  have e1': "\<bar>t1 + nz - (a + b + c)\<bar> \<le> 3 / 2 ^ 21 + 4 / 2 ^ 52"
    using e1 n by linarith
  have b1: "\<bar>a + b + c\<bar> + (3 / 2 ^ 21 + 4 / 2 ^ 52) \<le> 4"
    using u by (simp; linarith?)
  have e2: "\<bar>t2 - (a + b + c)\<bar> \<le> 3 / 2 ^ 21 + 4 / 2 ^ 52 + 4 / 2 ^ 52"
    unfolding t2_def by (rule dbl_op4 [OF e1' b1])
  have t: "\<bar>\<bar>t2\<bar> - s\<bar> \<le> 3 / 2 ^ 21 + 8 / 2 ^ 52"
    unfolding s_def using e2 by linarith
  have c4: "\<bar>dbl (4 / 10) - 4 / 10\<bar> \<le> 1 / 2 ^ 52" and c6: "\<bar>dbl (6 / 10) - 6 / 10\<bar> \<le> 1 / 2 ^ 52"
    by (rule dbl_unit; simp)+
  have s3: "\<bar>s\<bar> \<le> 3" unfolding s_def using u by linarith
  have "\<bar>dbl (4 / 10) * \<bar>t2\<bar> - 4 / 10 * s\<bar>
      \<le> 1 / 2 ^ 52 * 3 + 4 / 10 * (3 / 2 ^ 21 + 8 / 2 ^ 52) + 1 / 2 ^ 52 * (3 / 2 ^ 21 + 8 / 2 ^ 52)"
    by (rule prod_err [OF c4 t _ s3]) simp
  then have p: "\<bar>dbl (4 / 10) * \<bar>t2\<bar> - 4 / 10 * s\<bar> \<le> 12 / 10 / 2 ^ 21 + 8 / 2 ^ 52"
    by simp
  have m: "\<bar>4 / 10 * s\<bar> + (12 / 10 / 2 ^ 21 + 8 / 2 ^ 52) \<le> 4"
    using s3 by simp
  have e3: "\<bar>w1 - 4 / 10 * s\<bar> \<le> 12 / 10 / 2 ^ 21 + 8 / 2 ^ 52 + 4 / 2 ^ 52"
    unfolding w1_def by (rule dbl_op4 [OF p m])
  have e3': "\<bar>dbl (6 / 10) + w1 - (6 / 10 + 4 / 10 * s)\<bar> \<le> 12 / 10 / 2 ^ 21 + 13 / 2 ^ 52"
    using e3 c6 by linarith
  have m': "\<bar>6 / 10 + 4 / 10 * s\<bar> + (12 / 10 / 2 ^ 21 + 13 / 2 ^ 52) \<le> 4"
    using s3 by simp
  have "\<bar>dbl (dbl (6 / 10) + w1) - (6 / 10 + 4 / 10 * s)\<bar> \<le> 12 / 10 / 2 ^ 21 + 13 / 2 ^ 52 + 4 / 2 ^ 52"
    by (rule dbl_op4 [OF e3' m'])
  then have "\<bar>dbl (dbl (6 / 10) + w1) - (6 / 10 + 4 / 10 * s)\<bar> \<le> 1 / 2 ^ 20"
    by simp
  then show ?thesis
    by (simp add: weight_def w1_def t2_def t1_def s_def)
qed

lemma noise_close:
  assumes "0 \<le> u" and "u \<le> 1"
  shows "\<bar>dbl (dbl (u * 2) - 1) - (u * 2 - 1)\<bar> \<le> 1 / 2 ^ 50"
proof -
  have "\<bar>u * 2 - u * 2\<bar> \<le> 0" "\<bar>u * 2\<bar> + 0 \<le> 2"
    using assms by simp_all
  then have "\<bar>dbl (u * 2) - u * 2\<bar> \<le> 0 + 2 / 2 ^ 52"
    by (rule dbl_op2)
  then have e: "\<bar>dbl (u * 2) - 1 - (u * 2 - 1)\<bar> \<le> 2 / 2 ^ 52"
    by linarith
  have b: "\<bar>u * 2 - 1\<bar> + 2 / 2 ^ 52 \<le> 2"
    using assms by (simp; linarith?)
  have "\<bar>dbl (dbl (u * 2) - 1) - (u * 2 - 1)\<bar> \<le> 2 / 2 ^ 52 + 2 / 2 ^ 52"
    by (rule dbl_op2 [OF e b])
  then show ?thesis
    by simp
qed

lemma displacement_close:
  fixes nu i W0 :: real
  assumes nz: "\<bar>noise - nu\<bar> \<le> 1 / 2 ^ 50" and nu: "\<bar>nu\<bar> \<le> 1"
    and i: "0 \<le> i" "i \<le> 1"
    and w: "\<bar>w - W0\<bar> \<le> 1 / 2 ^ 20" and W0: "0 \<le> W0" "W0 \<le> 2"
  shows "\<bar>dbl (1 + dbl (dbl (noise * i) * w)) - (1 + nu * i * W0)\<bar> \<le> i / 2 ^ 20 + 1 / 2 ^ 46"
proof -
  define m1 where "m1 = dbl (noise * i)"
  define m2 where "m2 = dbl (m1 * w)"
  define t where "t = nu * i * W0"
  have ii: "\<bar>i\<bar> \<le> 1" "\<bar>i - i\<bar> \<le> 0" using i by simp_all
  have "\<bar>noise * i - nu * i\<bar> \<le> 1 / 2 ^ 50 * 1 + 1 * 0 + 1 / 2 ^ 50 * 0"
    by (rule prod_err [OF nz ii(2) nu ii(1)])
  then have e1: "\<bar>noise * i - nu * i\<bar> \<le> 1 / 2 ^ 50" by simp
  have ni: "\<bar>nu * i\<bar> \<le> i"
    using abs_prod_le [OF nu, of i i] i by simp
  have b1: "\<bar>nu * i\<bar> + 1 / 2 ^ 50 \<le> 2"
    using ni i by (simp; linarith?)
  have "\<bar>m1 - nu * i\<bar> \<le> 1 / 2 ^ 50 + 2 / 2 ^ 52"
    unfolding m1_def by (rule dbl_op2 [OF e1 b1])
  then have m1: "\<bar>m1 - nu * i\<bar> \<le> 1 / 2 ^ 49" by simp
  have W0a: "\<bar>W0\<bar> \<le> 2" using W0 by simp
  have "\<bar>m1 * w - nu * i * W0\<bar> \<le> 1 / 2 ^ 49 * 2 + i * (1 / 2 ^ 20) + 1 / 2 ^ 49 * (1 / 2 ^ 20)"
    by (rule prod_err [OF m1 w ni W0a])
  then have e2: "\<bar>m1 * w - t\<bar> \<le> i / 2 ^ 20 + 3 / 2 ^ 49"
    by (simp add: t_def)
  have "\<bar>nu * i * W0\<bar> \<le> i * 2"
    by (rule abs_prod_le [OF ni W0a])
  then have niw: "\<bar>t\<bar> \<le> 2"
    using i by (simp add: t_def)
  have i20: "i / 2 ^ 20 \<le> 1 / 2 ^ 20" using i by simp
  have b2: "\<bar>t\<bar> + (i / 2 ^ 20 + 3 / 2 ^ 49) \<le> 4"
    using niw i20 by (simp; linarith?)
  have e3: "\<bar>m2 - t\<bar> \<le> i / 2 ^ 20 + 3 / 2 ^ 49 + 4 / 2 ^ 52"
    unfolding m2_def by (rule dbl_op4 [OF e2 b2])
  then have e3': "\<bar>1 + m2 - (1 + t)\<bar> \<le> i / 2 ^ 20 + 3 / 2 ^ 49 + 4 / 2 ^ 52"
    by linarith
  have b3: "\<bar>1 + t\<bar> + (i / 2 ^ 20 + 3 / 2 ^ 49 + 4 / 2 ^ 52) \<le> 4"
    using niw i20 by (simp; linarith?)
  have "\<bar>dbl (1 + m2) - (1 + t)\<bar> \<le> i / 2 ^ 20 + 3 / 2 ^ 49 + 4 / 2 ^ 52 + 4 / 2 ^ 52"
    by (rule dbl_op4 [OF e3' b3])
  then have "\<bar>dbl (1 + m2) - (1 + t)\<bar> \<le> i / 2 ^ 20 + 1 / 2 ^ 46"
    by simp
  then show ?thesis
    by (simp add: m2_def m1_def t_def)
qed

lemma stored_product:
  fixes p D P :: real
  assumes P: "1 / 2 ^ 100 \<le> P" and p: "\<bar>p\<bar> \<le> P" and D: "\<bar>D\<bar> \<le> 4"
  shows "\<bar>fround (dbl (p * D)) - p * D\<bar> \<le> P / 2 ^ 19"
proof -
  have "(0::real) < 1 / 2 ^ 100" by simp
  then have P0: "0 < P" using P by linarith
  have pd: "\<bar>p * D\<bar> \<le> P * 4"
    by (rule abs_prod_le [OF p D])
  have big: "1 / 2 ^ 200 \<le> 4 * P" "1 / 2 ^ 110 \<le> 8 * P"
    using P by simp_all
  have z: "\<bar>p * D - p * D\<bar> \<le> 0" by simp
  have b1: "\<bar>p * D\<bar> + 0 \<le> 4 * P" using pd by simp
  have e1: "\<bar>dbl (p * D) - p * D\<bar> \<le> 0 + 4 * P / 2 ^ 52"
    by (rule dbl_op [OF big(1) z b1])
  have b2: "\<bar>p * D\<bar> + (0 + 4 * P / 2 ^ 52) \<le> 8 * P"
    using pd P0 by simp
  have "\<bar>fround (dbl (p * D)) - p * D\<bar> \<le> 0 + 4 * P / 2 ^ 52 + 8 * P / 2 ^ 23"
    by (rule fround_op [OF big(2) e1 b2])
  then show ?thesis
    using P0 by simp
qed

lemma on_sphere_abs:
  assumes "0 \<le> r" and "on_sphere r phi theta = (sx, sy, sz)"
  shows "\<bar>sx\<bar> \<le> r" and "\<bar>sy\<bar> \<le> r" and "\<bar>sz\<bar> \<le> r"
proof -
  have c: "\<bar>cos phi\<bar> \<le> 1" "\<bar>sin phi\<bar> \<le> 1" "\<bar>cos theta\<bar> \<le> 1" "\<bar>sin theta\<bar> \<le> 1"
    by simp_all
  have r: "\<bar>r\<bar> \<le> r" "\<bar>- r\<bar> \<le> r" using assms(1) by simp_all
  have "\<bar>- r * cos phi * sin theta\<bar> \<le> r * 1 * 1"
    by (intro abs_prod_le r c)
  moreover have "\<bar>r * cos theta\<bar> \<le> r * 1"
    by (intro abs_prod_le r c)
  moreover have "\<bar>r * sin phi * sin theta\<bar> \<le> r * 1 * 1"
    by (intro abs_prod_le r c)
  ultimately show "\<bar>sx\<bar> \<le> r" and "\<bar>sy\<bar> \<le> r" and "\<bar>sz\<bar> \<le> r"
    using assms(2) by (auto simp: on_sphere_def)
qed

lemma sphere_vertex_close:
  assumes r: "1 / 2 ^ 100 \<le> r"
    and v: "sphere_vertex r w h iy ix = (x, y, z)"
    and s: "on_sphere r (vertex_phi w ix) (vertex_theta h iy) = (sx, sy, sz)"
  shows "\<bar>x - sx\<bar> \<le> r / 2 ^ 49" and "\<bar>y - sy\<bar> \<le> r / 2 ^ 49" and "\<bar>z - sz\<bar> \<le> r / 2 ^ 49"
proof -
  define phi where "phi = vertex_phi w ix"
  define theta where "theta = vertex_theta h iy"
  have "(0::real) < 1 / 2 ^ 100" by simp
  then have r0: "0 < r" using r by linarith
  have x: "x = dbl (dbl (- 1 * r * dbl (cos phi)) * dbl (sin theta))"
    and y: "y = dbl (1 * r * dbl (cos theta))"
    and z: "z = dbl (dbl (1 * r * dbl (sin phi)) * dbl (sin theta))"
    using v by (simp_all add: sphere_vertex_def Let_def phi_def theta_def)
  have sx: "sx = - 1 * r * cos phi * sin theta" and sy: "sy = 1 * r * cos theta"
    and sz: "sz = 1 * r * sin phi * sin theta"
    using s by (simp_all add: on_sphere_def phi_def theta_def)
  show "\<bar>x - sx\<bar> \<le> r / 2 ^ 49"
    unfolding x sx by (rule scaled_product(1) [OF r, where k = "- 1"]) simp_all
  have "\<bar>y - sy\<bar> \<le> r / 2 ^ 50"
    unfolding y sy by (rule scaled_product(2) [OF r, where k = 1 and s = 1]) simp_all
  then show "\<bar>y - sy\<bar> \<le> r / 2 ^ 49"
    using r0 by (simp add: field_simps)
  show "\<bar>z - sz\<bar> \<le> r / 2 ^ 49"
    unfolding z sz by (rule scaled_product(1) [OF r, where k = 1]) simp_all
qed

lemma stored_close:
  assumes r: "1 / 2 ^ 100 \<le> r" and a: "\<bar>x - sx\<bar> \<le> r / 2 ^ 49" and b: "\<bar>sx\<bar> \<le> r"
  shows "\<bar>fround x - sx\<bar> \<le> r / 2 ^ 21"
proof -
  have "(0::real) < 1 / 2 ^ 100" by simp
  then have r0: "0 < r" using r by linarith
  have big: "1 / 2 ^ 110 \<le> 2 * r" using r by simp
  have side: "\<bar>sx\<bar> + r / 2 ^ 49 \<le> 2 * r" using b r0 by simp
  have "\<bar>fround x - sx\<bar> \<le> r / 2 ^ 49 + 2 * r / 2 ^ 23"
    by (rule fround_op [OF big a side])
  then show ?thesis using r0 by simp
qed

lemma vlength_near:
  assumes r: "0 \<le> r" and s: "vlength (sx, sy, sz) = r"
    and d: "\<bar>x - sx\<bar> \<le> d" "\<bar>y - sy\<bar> \<le> d" "\<bar>z - sz\<bar> \<le> d"
  shows "\<bar>vlength (x, y, z) - r\<bar> \<le> 3 * d"
  using vlength_close [OF d] s by simp

lemma direction_close:
  fixes x sx L r :: real
  assumes r: "0 < r" and x: "\<bar>x - sx\<bar> \<le> r / 2 ^ 49" and sx: "\<bar>sx\<bar> \<le> r"
    and L: "\<bar>L - r\<bar> \<le> 3 * r / 2 ^ 49"
  shows "\<bar>x / L - sx / r\<bar> \<le> 1 / 2 ^ 46"
proof -
  have "3 * r / 2 ^ 49 \<le> r / 2" using r by simp
  then have half: "r / 2 \<le> L" using L by linarith
  then have L0: "0 < L" using r by linarith
  have eq: "x / L - sx / r = ((x - sx) * r - sx * (L - r)) / (L * r)"
    using L0 r by (simp add: field_simps)
  define rr where "rr = r * r"
  define A where "A = (x - sx) * r"
  define C where "C = sx * (L - r)"
  have "\<bar>(x - sx) * r\<bar> \<le> r / 2 ^ 49 * r"
    by (rule abs_prod_le [OF x]) (use r in simp)
  then have a: "\<bar>A\<bar> \<le> rr / 2 ^ 49"
    by (simp add: A_def rr_def)
  have "\<bar>sx * (L - r)\<bar> \<le> r * (3 * r / 2 ^ 49)"
    by (rule abs_prod_le [OF sx L])
  then have c: "\<bar>C\<bar> \<le> 3 * rr / 2 ^ 49"
    by (simp add: C_def rr_def)
  have "\<bar>A - C\<bar> \<le> 4 * rr / 2 ^ 49"
    using a c by linarith
  then have num: "\<bar>(x - sx) * r - sx * (L - r)\<bar> \<le> 4 * (r * r) / 2 ^ 49"
    by (simp add: A_def C_def rr_def)
  have "r / 2 * r \<le> L * r"
    using half r by (intro mult_right_mono) simp_all
  then have den: "r * r / 2 \<le> L * r" by simp
  have rr: "0 < r * r" using r by simp
  have "\<bar>x / L - sx / r\<bar> = \<bar>(x - sx) * r - sx * (L - r)\<bar> / (L * r)"
    unfolding eq using L0 r by (simp add: abs_mult)
  also have "\<dots> \<le> (4 * (r * r) / 2 ^ 49) / (r * r / 2)"
    by (rule frac_le) (use num den rr in simp_all)
  also have "\<dots> = 1 / 2 ^ 46"
    using r by simp
  finally show ?thesis .
qed

lemma scaled_length_bounds:
  fixes r Lp D B outL :: real
  assumes r: "0 < r" and Lp: "\<bar>Lp - r\<bar> \<le> 3 * r / 2 ^ 21"
    and D: "\<bar>D - 1\<bar> \<le> B + 1 / 2 ^ 19" and B: "0 \<le> B" "B \<le> 2"
    and out: "\<bar>outL - \<bar>D\<bar> * Lp\<bar> \<le> 3 * r / 2 ^ 18"
  shows "r * (1 - B) - r / 2 ^ 15 \<le> outL" and "outL \<le> r * (1 + B) + r / 2 ^ 15"
proof -
  define RB where "RB = r * B"
  define RD where "RD = r * \<bar>D\<bar>"
  have D1: "\<bar>D\<bar> \<le> 1 + B + 1 / 2 ^ 19" "1 - B - 1 / 2 ^ 19 \<le> \<bar>D\<bar>"
    using D by linarith+
  have D4: "\<bar>\<bar>D\<bar>\<bar> \<le> 4" using D1 B by simp
  have "r * \<bar>D\<bar> \<le> r * (1 + B + 1 / 2 ^ 19)" "r * (1 - B - 1 / 2 ^ 19) \<le> r * \<bar>D\<bar>"
    using D1 r by (simp_all add: mult_left_mono)
  then have RD: "RD \<le> r + RB + r / 2 ^ 19" "r - RB - r / 2 ^ 19 \<le> RD"
    by (simp_all add: RD_def RB_def algebra_simps)
  have "\<bar>\<bar>D\<bar> * (Lp - r)\<bar> \<le> 4 * (3 * r / 2 ^ 21)"
    by (rule abs_prod_le [OF D4 Lp])
  moreover have "\<bar>D\<bar> * Lp = RD + \<bar>D\<bar> * (Lp - r)"
    by (simp add: RD_def algebra_simps)
  ultimately have "\<bar>\<bar>D\<bar> * Lp - RD\<bar> \<le> 12 * r / 2 ^ 21"
    by simp
  then have "r - RB - r / 2 ^ 19 - 12 * r / 2 ^ 21 - 3 * r / 2 ^ 18 \<le> outL"
    "outL \<le> r + RB + r / 2 ^ 19 + 12 * r / 2 ^ 21 + 3 * r / 2 ^ 18"
    using RD out by linarith+
  then have "r - RB - r / 2 ^ 15 \<le> outL" "outL \<le> r + RB + r / 2 ^ 15"
    using r by simp_all
  then show "r * (1 - B) - r / 2 ^ 15 \<le> outL" and "outL \<le> r * (1 + B) + r / 2 ^ 15"
    by (simp_all add: RB_def algebra_simps)
qed

lemma radius_range:
  fixes r :: real
  assumes "1 / 2 ^ 64 \<le> r" and "r \<le> 2 ^ 64"
  shows "0 < r" and "1 / 2 ^ 100 \<le> r" and "1 / 2 ^ 100 \<le> 2 * r" and "1 / 2 ^ 100 \<le> r / 2" and "2 * r \<le> 2 ^ 100"
proof -
  have "(0::real) < 1 / 2 ^ 64" by simp
  then show "0 < r" using assms(1) by linarith
  have "(1::real) / 2 ^ 100 \<le> 1 / 2 ^ 64 / 2" by simp
  also have "\<dots> \<le> r / 2" using assms(1) by simp
  finally show "1 / 2 ^ 100 \<le> r / 2" .
  then show "1 / 2 ^ 100 \<le> r" "1 / 2 ^ 100 \<le> 2 * r" using \<open>0 < r\<close> by linarith+
  have "(2::real) * 2 ^ 64 \<le> 2 ^ 100" by simp
  then show "2 * r \<le> 2 ^ 100" using assms(2) by linarith
qed

lemma vertex_length:
  assumes r: "1 / 2 ^ 64 \<le> r" "r \<le> 2 ^ 64"
    and v: "sphere_vertex r w h iy ix = (x, y, z)"
  shows "\<bar>vlength (x, y, z) - r\<bar> \<le> 3 * r / 2 ^ 49"
    and "1 / 2 ^ 100 \<le> vlength (x, y, z)" and "vlength (x, y, z) \<le> 2 ^ 100"
proof -
  note rr = radius_range [OF r]
  obtain sx sy sz where s: "on_sphere r (vertex_phi w ix) (vertex_theta h iy) = (sx, sy, sz)"
    by (cases "on_sphere r (vertex_phi w ix) (vertex_theta h iy)") auto
  have len: "vlength (sx, sy, sz) = r"
    using vlength_on_sphere [of r "vertex_phi w ix" "vertex_theta h iy"] rr(1) by (simp add: s)
  have "\<bar>vlength (x, y, z) - r\<bar> \<le> 3 * (r / 2 ^ 49)"
    by (rule vlength_near [OF _ len sphere_vertex_close [OF rr(2) v s]]) (use rr(1) in simp)
  then show a: "\<bar>vlength (x, y, z) - r\<bar> \<le> 3 * r / 2 ^ 49" by simp
  have "3 * r / 2 ^ 49 \<le> r / 2" using rr(1) by simp
  then have "r / 2 \<le> vlength (x, y, z)" "vlength (x, y, z) \<le> 2 * r"
    using a by linarith+
  then show "1 / 2 ^ 100 \<le> vlength (x, y, z)" and "vlength (x, y, z) \<le> 2 ^ 100"
    using rr(4,5) by linarith+
qed

lemma stored_vertex:
  assumes r: "1 / 2 ^ 64 \<le> r" "r \<le> 2 ^ 64"
    and v: "sphere_vertex r w h iy ix = (x, y, z)"
    and s: "on_sphere r (vertex_phi w ix) (vertex_theta h iy) = (sx, sy, sz)"
    and p: "store32 (x, y, z) = (px, py, pz)"
  shows "\<bar>px - sx\<bar> \<le> r / 2 ^ 21" and "\<bar>py - sy\<bar> \<le> r / 2 ^ 21" and "\<bar>pz - sz\<bar> \<le> r / 2 ^ 21"
    and "\<bar>px\<bar> \<le> 2 * r" and "\<bar>py\<bar> \<le> 2 * r" and "\<bar>pz\<bar> \<le> 2 * r"
    and "\<bar>vlength (px, py, pz) - r\<bar> \<le> 3 * r / 2 ^ 21"
proof -
  note rr = radius_range [OF r]
  note c = sphere_vertex_close [OF rr(2) v s]
  have r0: "0 \<le> r" using rr(1) by simp
  note a = on_sphere_abs [OF r0 s]
  have px: "px = fround x" and py: "py = fround y" and pz: "pz = fround z"
    using p by (simp_all add: store32_def)
  show x: "\<bar>px - sx\<bar> \<le> r / 2 ^ 21"
    unfolding px by (rule stored_close [OF rr(2) c(1) a(1)])
  show y: "\<bar>py - sy\<bar> \<le> r / 2 ^ 21"
    unfolding py by (rule stored_close [OF rr(2) c(2) a(2)])
  show z: "\<bar>pz - sz\<bar> \<le> r / 2 ^ 21"
    unfolding pz by (rule stored_close [OF rr(2) c(3) a(3)])
  have small: "r / 2 ^ 21 \<le> r" using rr(1) by simp
  show "\<bar>px\<bar> \<le> 2 * r" using x a(1) small by linarith
  show "\<bar>py\<bar> \<le> 2 * r" using y a(2) small by linarith
  show "\<bar>pz\<bar> \<le> 2 * r" using z a(3) small by linarith
  have len: "vlength (sx, sy, sz) = r"
    using vlength_on_sphere [of r "vertex_phi w ix" "vertex_theta h iy"] r0 by (simp add: s)
  have "\<bar>vlength (px, py, pz) - r\<bar> \<le> 3 * (r / 2 ^ 21)"
    by (rule vlength_near [OF r0 len x y z])
  then show "\<bar>vlength (px, py, pz) - r\<bar> \<le> 3 * r / 2 ^ 21" by simp
qed

lemma direction_abs:
  assumes "0 < vlength (x, y, z)"
  shows "\<bar>x / vlength (x, y, z)\<bar> \<le> 1" and "\<bar>y / vlength (x, y, z)\<bar> \<le> 1"
    and "\<bar>z / vlength (x, y, z)\<bar> \<le> 1"
  using assms abs_le_vlength by simp_all

lemma stored_weight:
  assumes r: "1 / 2 ^ 64 \<le> r" "r \<le> 2 ^ 64"
    and v: "sphere_vertex r w h iy ix = (x, y, z)"
    and n: "store32 (normalize_vec (x, y, z)) = (nx, ny, nz)"
    and L: "L = vlength (x, y, z)"
  shows "\<bar>weight (nx, ny, nz) - (6 / 10 + 4 / 10 * \<bar>x / L + y / L + z / L\<bar>)\<bar> \<le> 1 / 2 ^ 20"
    and "\<bar>x / L + y / L + z / L\<bar> \<le> sqrt 3"
proof -
  note vl = vertex_length [OF r v]
  have "(0::real) < 1 / 2 ^ 100" by simp
  then have L0: "0 < vlength (x, y, z)" using vl(2) by linarith
  note c = stored_normal_close [OF vl(2,3) n]
  show "\<bar>weight (nx, ny, nz) - (6 / 10 + 4 / 10 * \<bar>x / L + y / L + z / L\<bar>)\<bar> \<le> 1 / 2 ^ 20"
    unfolding L by (rule weight_close [OF c direction_abs [OF L0]])
  show "\<bar>x / L + y / L + z / L\<bar> \<le> sqrt 3"
    unfolding L by (rule unit_direction_sum [OF L0])
qed

lemma factor_bounds:
  fixes nu i W0 D :: real
  assumes D: "\<bar>D - (1 + nu * i * W0)\<bar> \<le> i / 2 ^ 20 + 1 / 2 ^ 46"
    and nu: "\<bar>nu\<bar> \<le> 1" and i: "0 \<le> i" "i \<le> 1"
    and W0: "0 \<le> W0" "W0 \<le> W" 
  shows "\<bar>D - 1\<bar> \<le> i * W + 1 / 2 ^ 19"
proof -
  have "\<bar>nu * W0\<bar> \<le> 1 * W"
    by (rule abs_prod_le [OF nu]) (use W0 in simp)
  then have "\<bar>i * (nu * W0)\<bar> \<le> i * (1 * W)"
    by (rule abs_prod_le [rotated]) (use i in simp)
  then have "\<bar>nu * i * W0\<bar> \<le> i * W"
    by (simp add: mult.assoc mult.left_commute)
  moreover have "i / 2 ^ 20 \<le> 1 / 2 ^ 20"
    using i by simp
  moreover have "(1::real) / 2 ^ 20 + 1 / 2 ^ 46 \<le> 1 / 2 ^ 19"
    by simp
  ultimately show ?thesis
    using D by linarith
qed

lemma sqrt3_lt: "sqrt 3 < 175 / 100"
  by (rule real_less_lsqrt) (simp_all add: power2_eq_square)

lemma moved_vertex:
  assumes r: "1 / 2 ^ 64 \<le> r" "r \<le> 2 ^ 64"
    and v: "sphere_vertex r w h iy ix = (x, y, z)"
    and p: "store32 (x, y, z) = (px, py, pz)"
    and n: "store32 (normalize_vec (x, y, z)) = (nx, ny, nz)"
    and u: "0 \<le> u" "u \<le> 1" and i: "0 \<le> i" "i \<le> 1"
    and D: "D = dbl (1 + dbl (dbl (dbl (dbl (u * 2) - 1) * i) * weight (nx, ny, nz)))"
    and W0: "W0 = 6 / 10 + 4 / 10 * \<bar>x / vlength (x, y, z) + y / vlength (x, y, z) + z / vlength (x, y, z)\<bar>"
    and out: "out = (fround (dbl (px * D)), fround (dbl (py * D)), fround (dbl (pz * D)))"
  shows "\<bar>D - (1 + (u * 2 - 1) * i * W0)\<bar> \<le> i / 2 ^ 20 + 1 / 2 ^ 46"
    and "6 / 10 \<le> W0" and "W0 \<le> 6 / 10 + 4 / 10 * sqrt 3"
    and "\<bar>D - 1\<bar> \<le> i * (6 / 10 + 4 / 10 * sqrt 3) + 1 / 2 ^ 19"
    and "\<bar>fst out - px * D\<bar> \<le> r / 2 ^ 18"
    and "\<bar>fst (snd out) - py * D\<bar> \<le> r / 2 ^ 18"
    and "\<bar>snd (snd out) - pz * D\<bar> \<le> r / 2 ^ 18"
    and "\<bar>vlength out - \<bar>D\<bar> * vlength (px, py, pz)\<bar> \<le> 3 * r / 2 ^ 18"
    and "r * (1 - i * (6 / 10 + 4 / 10 * sqrt 3)) - r / 2 ^ 15 \<le> vlength out"
    and "vlength out \<le> r * (1 + i * (6 / 10 + 4 / 10 * sqrt 3)) + r / 2 ^ 15"
proof -
  note rr = radius_range [OF r]
  obtain sx sy sz where s: "on_sphere r (vertex_phi w ix) (vertex_theta h iy) = (sx, sy, sz)"
    by (cases "on_sphere r (vertex_phi w ix) (vertex_theta h iy)") auto
  note sv = stored_vertex [OF r v s p]
  note sw = stored_weight [OF r v n refl]
  define W where "W = 6 / 10 + 4 / 10 * sqrt 3"
  have wc: "\<bar>weight (nx, ny, nz) - W0\<bar> \<le> 1 / 2 ^ 20"
    unfolding W0 by (rule sw(1))
  show W0lo: "6 / 10 \<le> W0" unfolding W0 by simp
  show W0hi: "W0 \<le> 6 / 10 + 4 / 10 * sqrt 3" unfolding W0 using sw(2) by simp
  have W2: "W0 \<le> 2" using W0hi sqrt3_lt by linarith
  have W00: "0 \<le> W0" using W0lo by linarith
  have nu: "\<bar>u * 2 - 1\<bar> \<le> 1" using u by linarith
  show Dc: "\<bar>D - (1 + (u * 2 - 1) * i * W0)\<bar> \<le> i / 2 ^ 20 + 1 / 2 ^ 46"
    unfolding D by (rule displacement_close [OF noise_close [OF u] nu i wc W00 W2])
  show D1: "\<bar>D - 1\<bar> \<le> i * (6 / 10 + 4 / 10 * sqrt 3) + 1 / 2 ^ 19"
    by (rule factor_bounds [OF Dc nu i W00 W0hi])
  have "i * W \<le> 1 * 2"
    unfolding W_def using i sqrt3_lt by (intro mult_mono) simp_all
  then have D4: "\<bar>D\<bar> \<le> 4" using D1 by (simp add: W_def)
  have x: "\<bar>fround (dbl (px * D)) - px * D\<bar> \<le> 2 * r / 2 ^ 19"
    by (rule stored_product [OF rr(3) sv(4) D4])
  have y: "\<bar>fround (dbl (py * D)) - py * D\<bar> \<le> 2 * r / 2 ^ 19"
    by (rule stored_product [OF rr(3) sv(5) D4])
  have z: "\<bar>fround (dbl (pz * D)) - pz * D\<bar> \<le> 2 * r / 2 ^ 19"
    by (rule stored_product [OF rr(3) sv(6) D4])
  have x': "\<bar>fround (dbl (px * D)) - px * D\<bar> \<le> r / 2 ^ 18"
    and y': "\<bar>fround (dbl (py * D)) - py * D\<bar> \<le> r / 2 ^ 18"
    and z': "\<bar>fround (dbl (pz * D)) - pz * D\<bar> \<le> r / 2 ^ 18"
    using x y z by simp_all
  show "\<bar>fst out - px * D\<bar> \<le> r / 2 ^ 18" "\<bar>fst (snd out) - py * D\<bar> \<le> r / 2 ^ 18"
    "\<bar>snd (snd out) - pz * D\<bar> \<le> r / 2 ^ 18"
    using x' y' z' by (simp_all add: out)
  have "\<bar>vlength out - vlength (px * D, py * D, pz * D)\<bar> \<le> 3 * (r / 2 ^ 18)"
    unfolding out by (rule vlength_close [OF x' y' z'])
  then show len: "\<bar>vlength out - \<bar>D\<bar> * vlength (px, py, pz)\<bar> \<le> 3 * r / 2 ^ 18"
    by (simp add: vlength_scale)
  have B: "0 \<le> i * W" "i * W \<le> 2"
    using i \<open>i * W \<le> 1 * 2\<close> sqrt3_lt by (simp_all add: W_def)
  note sl = scaled_length_bounds [OF rr(1) sv(7) D1 [folded W_def] B len]
  show "r * (1 - i * (6 / 10 + 4 / 10 * sqrt 3)) - r / 2 ^ 15 \<le> vlength out"
    using sl(1) by (simp add: W_def)
  show "vlength out \<le> r * (1 + i * (6 / 10 + 4 / 10 * sqrt 3)) + r / 2 ^ 15"
    using sl(2) by (simp add: W_def)
qed

lemma dbl_op16: "\<bar>y - y0\<bar> \<le> e \<Longrightarrow> \<bar>y0\<bar> + e \<le> 16 \<Longrightarrow> \<bar>dbl y - y0\<bar> \<le> e + 16 / 2 ^ 52"
  by (rule dbl_op) simp_all

lemma pi_bounds: "0 \<le> pi" "\<bar>pi\<bar> \<le> 4" "\<bar>2 * pi\<bar> \<le> 8"
  using pi_gt_zero pi_less_4 by simp_all

lemma dbl_pi: "\<bar>dbl pi - pi\<bar> \<le> 4 / 2 ^ 52"
proof -
  have "\<bar>pi - pi\<bar> \<le> 0" "\<bar>pi\<bar> + 0 \<le> 4" using pi_bounds by simp_all
  then have "\<bar>dbl pi - pi\<bar> \<le> 0 + 4 / 2 ^ 52" by (rule dbl_op4)
  then show ?thesis by simp
qed

lemma dbl_ratio:
  assumes "0 < n" and "k \<le> n"
  shows "\<bar>dbl (real k / real n) - real k / real n\<bar> \<le> 1 / 2 ^ 52" and "\<bar>real k / real n\<bar> \<le> 1"
proof -
  show a: "\<bar>real k / real n\<bar> \<le> 1" using assms by simp
  show "\<bar>dbl (real k / real n) - real k / real n\<bar> \<le> 1 / 2 ^ 52"
    by (rule dbl_unit [OF a])
qed

lemma vertex_theta_close:
  assumes "0 < h" and "iy \<le> h"
  shows "\<bar>vertex_theta h iy - real iy / real h * pi\<bar> \<le> 1 / 2 ^ 47"
proof -
  define q where "q = real iy / real h"
  note d = dbl_ratio [OF assms, folded q_def]
  have "\<bar>dbl q * dbl pi - q * pi\<bar> \<le> 1 / 2 ^ 52 * 4 + 1 * (4 / 2 ^ 52) + 1 / 2 ^ 52 * (4 / 2 ^ 52)"
    by (rule prod_err [OF d(1) dbl_pi d(2) pi_bounds(2)])
  then have e: "\<bar>dbl q * dbl pi - q * pi\<bar> \<le> 9 / 2 ^ 52" by simp
  have "\<bar>q * pi\<bar> \<le> 1 * 4" by (rule abs_prod_le [OF d(2) pi_bounds(2)])
  then have side: "\<bar>q * pi\<bar> + 9 / 2 ^ 52 \<le> 16" by simp
  have "\<bar>dbl (dbl q * dbl pi) - q * pi\<bar> \<le> 9 / 2 ^ 52 + 16 / 2 ^ 52"
    by (rule dbl_op16 [OF e side])
  then show ?thesis
    by (simp add: vertex_theta_def q_def)
qed

lemma vertex_phi_close:
  assumes "0 < w" and "ix \<le> w"
  shows "\<bar>vertex_phi w ix - real ix / real w * (2 * pi)\<bar> \<le> 1 / 2 ^ 46"
proof -
  define q where "q = real ix / real w"
  define c where "c = dbl (dbl pi * 2)"
  note d = dbl_ratio [OF assms, folded q_def]
  have e0: "\<bar>dbl pi * 2 - 2 * pi\<bar> \<le> 8 / 2 ^ 52" using dbl_pi by linarith
  have s0: "\<bar>2 * pi\<bar> + 8 / 2 ^ 52 \<le> 16" using pi_bounds(3) by simp
  have "\<bar>c - 2 * pi\<bar> \<le> 8 / 2 ^ 52 + 16 / 2 ^ 52"
    unfolding c_def by (rule dbl_op16 [OF e0 s0])
  then have c: "\<bar>c - 2 * pi\<bar> \<le> 24 / 2 ^ 52" by simp
  have "\<bar>dbl q * c - q * (2 * pi)\<bar> \<le> 1 / 2 ^ 52 * 8 + 1 * (24 / 2 ^ 52) + 1 / 2 ^ 52 * (24 / 2 ^ 52)"
    by (rule prod_err [OF d(1) c d(2) pi_bounds(3)])
  then have e: "\<bar>dbl q * c - q * (2 * pi)\<bar> \<le> 33 / 2 ^ 52" by simp
  have "\<bar>q * (2 * pi)\<bar> \<le> 1 * 8" by (rule abs_prod_le [OF d(2) pi_bounds(3)])
  then have side: "\<bar>q * (2 * pi)\<bar> + 33 / 2 ^ 52 \<le> 16" by simp
  have "\<bar>dbl (dbl q * c) - q * (2 * pi)\<bar> \<le> 33 / 2 ^ 52 + 16 / 2 ^ 52"
    by (rule dbl_op16 [OF e side])
  then show ?thesis
    by (simp add: vertex_phi_def q_def c_def)
qed

lemma vertex_angle_0 [simp]: "vertex_phi w 0 = 0" "vertex_theta h 0 = 0"
  by (simp_all add: vertex_phi_def vertex_theta_def)

lemma sin_lipschitz: "\<bar>sin a - sin b\<bar> \<le> \<bar>a - b\<bar>" for a b :: real
proof -
  have "\<bar>sin ((a - b) / 2)\<bar> \<le> \<bar>(a - b) / 2\<bar>"
    by (rule abs_sin_x_le_abs_x)
  moreover have "\<bar>cos ((a + b) / 2)\<bar> \<le> 1" by simp
  ultimately have "\<bar>sin ((a - b) / 2) * cos ((a + b) / 2)\<bar> \<le> \<bar>(a - b) / 2\<bar> * 1"
    by (rule abs_prod_le)
  then show ?thesis
    by (simp add: sin_diff_sin)
qed

lemma cos_lipschitz: "\<bar>cos a - cos b\<bar> \<le> \<bar>a - b\<bar>" for a b :: real
proof -
  have "\<bar>sin ((b - a) / 2)\<bar> \<le> \<bar>(b - a) / 2\<bar>"
    by (rule abs_sin_x_le_abs_x)
  moreover have "\<bar>sin ((a + b) / 2)\<bar> \<le> 1" by simp
  ultimately have "\<bar>sin ((a + b) / 2) * sin ((b - a) / 2)\<bar> \<le> 1 * \<bar>(b - a) / 2\<bar>"
    by (intro abs_prod_le)
  then show ?thesis
    by (simp add: cos_diff_cos)
qed

lemma sqrt2_gt: "14142 / 10000 < sqrt 2"
  by (rule real_less_rsqrt) (simp add: power2_eq_square)

lemma example_point:
  assumes s: "on_sphere 1 (vertex_phi 128 64) (vertex_theta 64 16) = (sx, sy, sz)"
  shows "707 / 1000 \<le> sx" and "707 / 1000 \<le> sy" and "\<bar>sz\<bar> \<le> 1 / 2 ^ 46"
proof -
  define phi where "phi = vertex_phi 128 64"
  define theta where "theta = vertex_theta 64 16"
  have "\<bar>vertex_phi 128 64 - real 64 / real 128 * (2 * pi)\<bar> \<le> 1 / 2 ^ 46"
    by (rule vertex_phi_close) simp_all
  then have phi: "\<bar>phi - pi\<bar> \<le> 1 / 2 ^ 46"
    by (simp add: phi_def)
  have "\<bar>vertex_theta 64 16 - real 16 / real 64 * pi\<bar> \<le> 1 / 2 ^ 47"
    by (rule vertex_theta_close) simp_all
  then have theta: "\<bar>theta - pi / 4\<bar> \<le> 1 / 2 ^ 47"
    by (simp add: theta_def)
  have "\<bar>cos phi - cos pi\<bar> \<le> 1 / 2 ^ 46" "\<bar>sin phi - sin pi\<bar> \<le> 1 / 2 ^ 46"
    using cos_lipschitz [of phi pi] sin_lipschitz [of phi pi] phi by linarith+
  then have "\<bar>cos phi + 1\<bar> \<le> 1 / 2 ^ 46" and sp: "\<bar>sin phi\<bar> \<le> 1 / 2 ^ 46"
    by simp_all
  then have c: "1 - 1 / 2 ^ 46 \<le> - cos phi"
    by linarith
  have "\<bar>sin theta - sin (pi / 4)\<bar> \<le> 1 / 2 ^ 47" "\<bar>cos theta - cos (pi / 4)\<bar> \<le> 1 / 2 ^ 47"
    using cos_lipschitz [of theta "pi / 4"] sin_lipschitz [of theta "pi / 4"] theta by linarith+
  then have "\<bar>sin theta - sqrt 2 / 2\<bar> \<le> 1 / 2 ^ 47" "\<bar>cos theta - sqrt 2 / 2\<bar> \<le> 1 / 2 ^ 47"
    by (simp_all only: sin_45 cos_45)
  then have "sqrt 2 / 2 - 1 / 2 ^ 47 \<le> sin theta" "sqrt 2 / 2 - 1 / 2 ^ 47 \<le> cos theta"
    by linarith+
  then have st: "7071 / 10000 - 1 / 2 ^ 47 \<le> sin theta" and ct: "7071 / 10000 - 1 / 2 ^ 47 \<le> cos theta"
    using sqrt2_gt by linarith+
  have "(1 - 1 / 2 ^ 46) * (7071 / 10000 - 1 / 2 ^ 47) \<le> - cos phi * sin theta"
    by (rule mult_mono [OF c st]) (use c in simp_all)
  moreover have "(707 :: real) / 1000 \<le> (1 - 1 / 2 ^ 46) * (7071 / 10000 - 1 / 2 ^ 47)"
    by simp
  ultimately have "707 / 1000 \<le> - cos phi * sin theta"
    by linarith
  then show "707 / 1000 \<le> sx"
    using s by (simp add: on_sphere_def phi_def theta_def)
  have "(707 :: real) / 1000 \<le> 7071 / 10000 - 1 / 2 ^ 47" by simp
  then have "707 / 1000 \<le> cos theta" using ct by linarith
  then show "707 / 1000 \<le> sy"
    using s by (simp add: on_sphere_def phi_def theta_def)
  have "\<bar>sin phi * sin theta\<bar> \<le> 1 / 2 ^ 46 * 1"
    by (rule abs_prod_le [OF sp]) simp
  then show "\<bar>sz\<bar> \<le> 1 / 2 ^ 46"
    using s by (simp add: on_sphere_def phi_def theta_def)
qed

lemma example_vertex:
  assumes v: "sphere_vertex 1 128 64 16 64 = (x, y, z)"
    and p: "store32 (x, y, z) = (px, py, pz)"
  shows "7 / 10 \<le> px"
    and "141 / 100 \<le> x / vlength (x, y, z) + y / vlength (x, y, z) + z / vlength (x, y, z)"
proof -
  obtain sx sy sz where s: "on_sphere 1 (vertex_phi 128 64) (vertex_theta 64 16) = (sx, sy, sz)"
    by (cases "on_sphere 1 (vertex_phi 128 64) (vertex_theta 64 16)") auto
  have r: "(1::real) / 2 ^ 64 \<le> 1" "(1::real) \<le> 2 ^ 64" "(1::real) / 2 ^ 100 \<le> 1" "(0::real) < 1" "(0::real) \<le> 1"
    by simp_all
  note e = example_point [OF s]
  note sv = stored_vertex [OF r(1,2) v s p]
  note c = sphere_vertex_close [OF r(3) v s]
  note a = on_sphere_abs [OF r(5) s]
  note vl = vertex_length [OF r(1,2) v]
  have "(707::real) / 1000 - 1 / 2 ^ 21 \<ge> 7 / 10" by simp
  then show "7 / 10 \<le> px"
    using sv(1) e(1) by linarith
  define L where "L = vlength (x, y, z)"
  define ax where "ax = x / L"
  define ay where "ay = y / L"
  define az where "az = z / L"
  have "\<bar>x / L - sx / 1\<bar> \<le> 1 / 2 ^ 46"
    unfolding L_def by (rule direction_close [OF r(4) c(1) a(1) vl(1)])
  then have dx: "\<bar>ax - sx\<bar> \<le> 1 / 2 ^ 46" by (simp only: ax_def div_by_1)
  have "\<bar>y / L - sy / 1\<bar> \<le> 1 / 2 ^ 46"
    unfolding L_def by (rule direction_close [OF r(4) c(2) a(2) vl(1)])
  then have dy: "\<bar>ay - sy\<bar> \<le> 1 / 2 ^ 46" by (simp only: ay_def div_by_1)
  have "\<bar>z / L - sz / 1\<bar> \<le> 1 / 2 ^ 46"
    unfolding L_def by (rule direction_close [OF r(4) c(3) a(3) vl(1)])
  then have dz: "\<bar>az - sz\<bar> \<le> 1 / 2 ^ 46" by (simp only: az_def div_by_1)
  have "(141::real) / 100 \<le> 707 / 1000 + 707 / 1000 - 1 / 2 ^ 46 - 3 * (1 / 2 ^ 46)"
    by simp
  then have "141 / 100 \<le> ax + ay + az"
    using dx dy dz e by linarith
  then have "141 / 100 \<le> x / L + y / L + z / L"
    by (simp only: ax_def ay_def az_def)
  then show "141 / 100 \<le> x / vlength (x, y, z) + y / vlength (x, y, z) + z / vlength (x, y, z)"
    by (simp only: L_def)
qed

subsection \<open>Vertices of the generated mesh\<close>

lemma bumped_vertex:
  assumes r: "1 / 2 ^ 64 \<le> radius" "radius \<le> 2 ^ 64" and i: "0 \<le> intensity" "intensity \<le> 1"
    and j: "j < length (position (SphereGeometry radius ws hs))"
    and p: "p = position (SphereGeometry radius ws hs) ! j"
    and n: "n = normal (SphereGeometry radius ws hs) ! j"
    and D: "D = displacement intensity seed p n"
  shows "\<bar>D - 1\<bar> \<le> intensity * (6 / 10 + 4 / 10 * sqrt 3) + 1 / 2 ^ 19"
    and "radius * (1 - intensity * (6 / 10 + 4 / 10 * sqrt 3)) - radius / 2 ^ 15 \<le> vlength (vscale D p)"
    and "vlength (vscale D p) \<le> radius * (1 + intensity * (6 / 10 + 4 / 10 * sqrt 3)) + radius / 2 ^ 15"
    and "6 / 10 - 1 / 2 ^ 20 \<le> weight n" and "weight n \<le> 6 / 10 + 4 / 10 * sqrt 3 + 1 / 2 ^ 20"
proof -
  obtain iy ix where at:
    "p = store32 (sphere_vertex radius (nat (max 3 ws)) (nat (max 2 hs)) iy ix)"
    "n = store32 (normalize_vec (sphere_vertex radius (nat (max 3 ws)) (nat (max 2 hs)) iy ix))"
    using SphereGeometry_at [OF j] p n by auto
  obtain x y z where v: "sphere_vertex radius (nat (max 3 ws)) (nat (max 2 hs)) iy ix = (x, y, z)"
    by (cases "sphere_vertex radius (nat (max 3 ws)) (nat (max 2 hs)) iy ix") auto
  obtain px py pz where pp: "store32 (x, y, z) = (px, py, pz)"
    by (cases "store32 (x, y, z)") auto
  obtain nx ny nz where nn: "store32 (normalize_vec (x, y, z)) = (nx, ny, nz)"
    by (cases "store32 (normalize_vec (x, y, z))") auto
  define u where "u = first_draw (\<lfloor>vertex_hash p\<rfloor> + seed)"
  have u: "0 \<le> u" "u \<le> 1"
    using first_draw_range [of "\<lfloor>vertex_hash p\<rfloor> + seed"] by (simp_all add: u_def)
  have p': "p = (px, py, pz)" and n': "n = (nx, ny, nz)"
    using at v pp nn by simp_all
  have Deq: "D = dbl (1 + dbl (dbl (dbl (dbl (u * 2) - 1) * intensity) * weight (nx, ny, nz)))"
    by (simp add: D displacement_def vertex_noise_def u_def n')
  have out: "vscale D p = (fround (dbl (px * D)), fround (dbl (py * D)), fround (dbl (pz * D)))"
    by (simp add: vscale_def p')
  note mv = moved_vertex [OF r v pp nn u i Deq refl out]
  note sw = stored_weight [OF r v nn refl]
  show "\<bar>D - 1\<bar> \<le> intensity * (6 / 10 + 4 / 10 * sqrt 3) + 1 / 2 ^ 19"
    by (rule mv(4))
  show "radius * (1 - intensity * (6 / 10 + 4 / 10 * sqrt 3)) - radius / 2 ^ 15 \<le> vlength (vscale D p)"
    by (rule mv(9))
  show "vlength (vscale D p) \<le> radius * (1 + intensity * (6 / 10 + 4 / 10 * sqrt 3)) + radius / 2 ^ 15"
    by (rule mv(10))
  define S where "S = \<bar>x / vlength (x, y, z) + y / vlength (x, y, z) + z / vlength (x, y, z)\<bar>"
  have "\<bar>weight n - (6 / 10 + 4 / 10 * S)\<bar> \<le> 1 / 2 ^ 20" "0 \<le> S" "S \<le> sqrt 3"
    using sw by (simp_all add: S_def n')
  then show "6 / 10 - 1 / 2 ^ 20 \<le> weight n" and "weight n \<le> 6 / 10 + 4 / 10 * sqrt 3 + 1 / 2 ^ 20"
    by linarith+
qed

lemma SphereGeometry_128_64_vertex_2128:
  "position (SphereGeometry 1 128 64) ! 2128 = store32 (sphere_vertex 1 128 64 16 64)"
  "normal (SphereGeometry 1 128 64) ! 2128 = store32 (normalize_vec (sphere_vertex 1 128 64 16 64))"
  using SphereGeometry_nth [of 16 64 64 128 1] by simp_all

lemma example_vertex_report:
  assumes i: "0 \<le> i" "i \<le> 1"
    and p: "p = position (SphereGeometry 1 128 64) ! 2128"
    and n: "n = normal (SphereGeometry 1 128 64) ! 2128"
    and D: "D = displacement i (seed_for t p) p n"
  shows "\<exists>W0. 1164 / 1000 \<le> W0 \<and> W0 \<le> 2
      \<and> \<bar>D - (1 + (first_draw t * 2 - 1) * i * W0)\<bar> \<le> i / 2 ^ 20 + 1 / 2 ^ 46
      \<and> \<bar>weight n - W0\<bar> \<le> 1 / 2 ^ 20"
    and "7 / 10 \<le> fst p" and "\<bar>vlength p - 1\<bar> \<le> 3 / 2 ^ 21"
    and "\<bar>vlength (vscale D p) - \<bar>D\<bar> * vlength p\<bar> \<le> 3 / 2 ^ 18"
    and "\<bar>fst (vscale D p) - fst p * D\<bar> \<le> 1 / 2 ^ 18"
proof -
  obtain x y z where v: "sphere_vertex 1 128 64 16 64 = (x, y, z)"
    by (cases "sphere_vertex 1 128 64 16 64") auto
  obtain px py pz where pp: "store32 (x, y, z) = (px, py, pz)"
    by (cases "store32 (x, y, z)") auto
  obtain nx ny nz where nn: "store32 (normalize_vec (x, y, z)) = (nx, ny, nz)"
    by (cases "store32 (normalize_vec (x, y, z))") auto
  have p': "p = (px, py, pz)" and n': "n = (nx, ny, nz)"
    using p n v pp nn by (simp_all add: SphereGeometry_128_64_vertex_2128)
  define u where "u = first_draw t"
  have u: "0 \<le> u" "u \<le> 1"
    using first_draw_range [of t] by (simp_all add: u_def)
  have r: "(1::real) / 2 ^ 64 \<le> 1" "(1::real) \<le> 2 ^ 64"
    by simp_all
  define W0 where "W0 = 6 / 10 + 4 / 10 * \<bar>x / vlength (x, y, z) + y / vlength (x, y, z) + z / vlength (x, y, z)\<bar>"
  have Deq: "D = dbl (1 + dbl (dbl (dbl (dbl (u * 2) - 1) * i) * weight (nx, ny, nz)))"
    by (simp add: D displacement_def vertex_noise_def first_draw_seed_for u_def n')
  have out: "vscale D p = (fround (dbl (px * D)), fround (dbl (py * D)), fround (dbl (pz * D)))"
    by (simp add: vscale_def p')
  note mv = moved_vertex [OF r v pp nn u i Deq W0_def out]
  note sw = stored_weight [OF r v nn refl]
  note ev = example_vertex [OF v pp]
  obtain sx sy sz where s: "on_sphere 1 (vertex_phi 128 64) (vertex_theta 64 16) = (sx, sy, sz)"
    by (cases "on_sphere 1 (vertex_phi 128 64) (vertex_theta 64 16)") auto
  note sv = stored_vertex [OF r v s pp]
  define S where "S = x / vlength (x, y, z) + y / vlength (x, y, z) + z / vlength (x, y, z)"
  have S: "141 / 100 \<le> S" using ev(2) by (simp only: S_def)
  have W0S: "W0 = 6 / 10 + 4 / 10 * \<bar>S\<bar>" by (simp only: W0_def S_def)
  have "1164 / 1000 \<le> W0"
    unfolding W0S using S by linarith
  moreover have "W0 \<le> 2"
    using mv(3) sqrt3_lt by linarith
  moreover have "\<bar>weight n - W0\<bar> \<le> 1 / 2 ^ 20"
    using sw(1) by (simp only: W0_def n')
  ultimately show "\<exists>W0. 1164 / 1000 \<le> W0 \<and> W0 \<le> 2
      \<and> \<bar>D - (1 + (first_draw t * 2 - 1) * i * W0)\<bar> \<le> i / 2 ^ 20 + 1 / 2 ^ 46
      \<and> \<bar>weight n - W0\<bar> \<le> 1 / 2 ^ 20"
    using mv(1) unfolding u_def by blast
  show "7 / 10 \<le> fst p" using ev(1) by (simp add: p')
  show "\<bar>vlength p - 1\<bar> \<le> 3 / 2 ^ 21" using sv(7) by (simp add: p')
  show "\<bar>vlength (vscale D p) - \<bar>D\<bar> * vlength p\<bar> \<le> 3 / 2 ^ 18"
    using mv(8) by (simp add: p')
  show "\<bar>fst (vscale D p) - fst p * D\<bar> \<le> 1 / 2 ^ 18"
    using mv(5) by (simp add: p')
qed


lemma dbl_6_100: "599 / 10000 \<le> dbl (6 / 100)" "dbl (6 / 100) \<le> 601 / 10000"
proof -
  have "\<bar>dbl (6 / 100) - 6 / 100\<bar> \<le> 1 / 2 ^ 52"
    by (rule dbl_unit) simp
  moreover have "(1::real) / 2 ^ 52 \<le> 1 / 10000"
    by simp
  ultimately show "599 / 10000 \<le> dbl (6 / 100)" "dbl (6 / 100) \<le> 601 / 10000"
    by linarith+
qed

lemma dbl_clamp_bounds: "dbl (2 / 100) \<le> 201 / 10000" "1199 / 10000 \<le> dbl (12 / 100)"
proof -
  have "\<bar>dbl (2 / 100) - 2 / 100\<bar> \<le> 1 / 2 ^ 52" "\<bar>dbl (12 / 100) - 12 / 100\<bar> \<le> 1 / 2 ^ 52"
    by (rule dbl_unit; simp)+
  moreover have "(1::real) / 2 ^ 52 \<le> 1 / 10000"
    by simp
  ultimately show "dbl (2 / 100) \<le> 201 / 10000" "1199 / 10000 \<le> dbl (12 / 100)"
    by linarith+
qed

lemma clamp_6_100: "max (dbl (2 / 100)) (min (dbl (12 / 100)) (dbl (6 / 100))) = dbl (6 / 100)"
  using dbl_clamp_bounds dbl_6_100 by linarith

subsection \<open>Seed derivation\<close>

text \<open>
  C6. \<open>hashCode\<close> is a function of its argument alone whose value is an unsigned 32-bit
  integer, and on the empty string it is the initial constant 2166136261, which is not
  zero: the loop body is never entered. On \<open>433 Eros\<close> it is 2063999570.
\<close>

theorem hashCode_range_and_empty:
  "0 \<le> hashCode s \<and> hashCode s < 2 ^ 32
   \<and> hashCode [] = 2166136261 \<and> hashCode [] \<noteq> 0
   \<and> hashCode_loop h [] = h
   \<and> hashCode (str ''433 Eros'') = 2063999570"
proof -
  have "uint (hashCode_loop 2166136261 s) < 2 ^ LENGTH(32)"
    by (rule uint_lt2p)
  moreover have "hashCode (str ''433 Eros'') = 2063999570"
    by (simp add: hashCode_def str_def)
  ultimately show ?thesis
    by (simp add: hashCode_def)
qed

subsection \<open>Shape generator\<close>

text \<open>
  C1. Two invocations of \<open>createBumpyGeometry\<close> with the same radius, segments,
  intensity and seed return the same geometry, and so the same vertex positions,
  whatever the store of generator closures holds when each of them starts: in
  particular when the second invocation runs on the store the first one left behind.
  Every draw comes from a generator created in the same iteration.
\<close>

theorem createBumpyGeometry_deterministic:
  "fst (createBumpyGeometry radius segments intensity seed hp) =
     fst (createBumpyGeometry radius segments intensity seed hp')
   \<and> fst (createBumpyGeometry radius segments intensity seed
          (snd (createBumpyGeometry radius segments intensity seed hp))) =
       fst (createBumpyGeometry radius segments intensity seed hp)"
proof -
  have pos: "position (fst (createBumpyGeometry radius segments intensity seed h1)) =
      position (fst (createBumpyGeometry radius segments intensity seed h2))" for h1 h2
    by (simp only: createBumpyGeometry_position)
  have idx: "index (fst (createBumpyGeometry radius segments intensity seed h1)) =
      index (fst (createBumpyGeometry radius segments intensity seed h2))" for h1 h2
    by (simp only: createBumpyGeometry_index)
  have nrm: "normal (fst (createBumpyGeometry radius segments intensity seed h1)) =
      normal (fst (createBumpyGeometry radius segments intensity seed h2))" for h1 h2
    by (simp only: createBumpyGeometry_normal pos [of h1 h2] idx [of h1 h2])
  have eq: "fst (createBumpyGeometry radius segments intensity seed h1) =
      fst (createBumpyGeometry radius segments intensity seed h2)" for h1 h2
    by (rule geometry.equality) (simp_all add: pos [of h1 h2] idx [of h1 h2] nrm [of h1 h2])
  show ?thesis
    using eq [of hp hp'] eq [of "snd (createBumpyGeometry radius segments intensity seed hp)" hp]
    by (rule conjI)
qed

text \<open>
  C2, as stated, fails. The factor that multiplies the intensity is
  \<open>0.6 + 0.4 * |nx + ny + nz|\<close>, and \<open>|nx + ny + nz|\<close> exceeds 1 on a diagonal normal.
  In the call \<open>createBumpyGeometry(1, 128, 0.06, seed)\<close> the vertex of row 16 and
  column 64 (number \<open>16 * 129 + 64 = 2128\<close>) has longitude \<open>pi\<close> and polar angle
  \<open>pi / 4\<close>, up to rounding; its position and its normal are read from the buffers as
  \<open>(0.70710677, 0.70710677, 8.66e-17)\<close>, and its factor is about 1.166. With the seed
  that starts the generator of this vertex from state 36 (the hash of the vertex is
  99867.29, the seed 4294867465) the draw is 0.9562, the displacement about 1.0638, and
  the vertex ends farther than \<open>1 * (1 + 0.06)\<close> from the centre.
\<close>

theorem displacement_bound_counterexample:
  "\<not> vlength (position (fst (createBumpyGeometry 1 128 (dbl (6 / 100))
          (seed_for 36 (position (SphereGeometry 1 128 64) ! 2128)) no_closures)) ! 2128)
        \<le> 1 * (1 + dbl (6 / 100))
   \<and> 1063 / 1000 < vlength (position (fst (createBumpyGeometry 1 128 (dbl (6 / 100))
          (seed_for 36 (position (SphereGeometry 1 128 64) ! 2128)) no_closures)) ! 2128)
   \<and> 1 < weight (normal (SphereGeometry 1 128 64) ! 2128)"
proof -
  define p where "p = position (SphereGeometry 1 128 64) ! 2128"
  define n where "n = normal (SphereGeometry 1 128 64) ! 2128"
  define i where "i = dbl (6 / 100)"
  define D where "D = displacement i (seed_for 36 p) p n"
  define nu :: real where "nu = 4106669352 / 4294967296 * 2 - 1"
  have i: "599 / 10000 \<le> i" "i \<le> 601 / 10000"
    using dbl_6_100 by (simp_all add: i_def)
  then have i01: "0 \<le> i" "i \<le> 1" by linarith+
  note rep = example_vertex_report [OF i01 p_def n_def D_def]
  from rep(1) obtain W0 where W0: "1164 / 1000 \<le> W0" "W0 \<le> 2"
    and Dc: "\<bar>D - (1 + nu * i * W0)\<bar> \<le> i / 2 ^ 20 + 1 / 2 ^ 46"
    and w: "\<bar>weight n - W0\<bar> \<le> 1 / 2 ^ 20"
    unfolding first_draw_36 nu_def by blast
  have nu: "912 / 1000 \<le> nu" by (simp add: nu_def)
  have "912 / 1000 * (599 / 10000) \<le> nu * i"
    by (rule mult_mono [OF nu i(1)]) (use nu in simp_all)
  then have "912 / 1000 * (599 / 10000) * (1164 / 1000) \<le> nu * i * W0"
    by (rule mult_mono [OF _ W0(1)]) (use nu i01 in simp_all)
  moreover have "(63587 :: real) / 1000000 \<le> 912 / 1000 * (599 / 10000) * (1164 / 1000)"
    by simp
  moreover have "i / 2 ^ 20 \<le> 1 / 2 ^ 20"
    using i01 by simp
  moreover have "(1::real) / 2 ^ 20 + 1 / 2 ^ 46 \<le> 2 / 1000000"
    by simp
  ultimately have Dlo: "10635 / 10000 \<le> D"
    using Dc by linarith
  then have Dabs: "10635 / 10000 \<le> \<bar>D\<bar>" by linarith
  have "(3::real) / 2 ^ 21 \<le> 1 / 100000"
    by simp
  then have len: "99999 / 100000 \<le> vlength p"
    using rep(3) by linarith
  have "10635 / 10000 * (99999 / 100000) \<le> \<bar>D\<bar> * vlength p"
    by (rule mult_mono [OF Dabs len]) simp_all
  moreover have "(10634 :: real) / 10000 \<le> 10635 / 10000 * (99999 / 100000) - 2 / 100000"
    by simp
  moreover have "(3::real) / 2 ^ 18 \<le> 2 / 100000"
    by simp
  ultimately have far: "10634 / 10000 \<le> vlength (vscale D p)"
    using rep(4) by linarith
  have "2128 < length (position (SphereGeometry 1 (max 32 128) (max 16 (128 div 2))))"
    by (simp add: SphereGeometry_count)
  from createBumpyGeometry_vertex [OF this, of i "seed_for 36 p" no_closures]
  have out: "position (fst (createBumpyGeometry 1 128 i (seed_for 36 p) no_closures)) ! 2128 = vscale D p"
    by (simp add: D_def p_def n_def)
  have "(1::real) / 2 ^ 20 \<le> 1 / 1000"
    by simp
  then have "1 < weight n"
    using w W0(1) by linarith
  moreover have "1 * (1 + i) < 1063 / 1000"
    using i(2) by simp
  ultimately show ?thesis
    using far unfolding p_def [symmetric] n_def [symmetric] i_def [symmetric] out
    by linarith
qed

text \<open>
  C2, amended. For a radius between \<open>2 ^ -64\<close> and \<open>2 ^ 64\<close> and an intensity between
  0 and 1, every vertex of the result lies at a distance from the centre between
  \<open>radius * (1 - intensity * (0.6 + 0.4 * sqrt 3))\<close> and
  \<open>radius * (1 + intensity * (0.6 + 0.4 * sqrt 3))\<close>, up to \<open>radius * 2 ^ -15\<close> for
  the rounding of the coordinates to binary32, where the intensity is the one passed
  in; the factor of every vertex lies between 0.6 and \<open>0.6 + 0.4 * sqrt 3\<close>, up to
  \<open>2 ^ -20\<close>, so it is never zero.
\<close>

theorem displacement_bounded:
  assumes "1 / 2 ^ 64 \<le> radius" and "radius \<le> 2 ^ 64"
    and "0 \<le> intensity" and "intensity \<le> 1"
    and "j < length (position (fst (createBumpyGeometry radius segments intensity seed hp)))"
  shows "radius * (1 - intensity * (6 / 10 + 4 / 10 * sqrt 3)) - radius / 2 ^ 15
           \<le> vlength (position (fst (createBumpyGeometry radius segments intensity seed hp)) ! j)
       \<and> vlength (position (fst (createBumpyGeometry radius segments intensity seed hp)) ! j)
           \<le> radius * (1 + intensity * (6 / 10 + 4 / 10 * sqrt 3)) + radius / 2 ^ 15
       \<and> 6 / 10 - 1 / 2 ^ 20
           \<le> weight (normal (SphereGeometry radius (max 32 segments) (max 16 (segments div 2))) ! j)
       \<and> weight (normal (SphereGeometry radius (max 32 segments) (max 16 (segments div 2))) ! j)
           \<le> 6 / 10 + 4 / 10 * sqrt 3 + 1 / 2 ^ 20"
proof -
  define sphere where "sphere = SphereGeometry radius (max 32 segments) (max 16 (segments div 2))"
  define p where "p = position sphere ! j"
  define n where "n = normal sphere ! j"
  define D where "D = displacement intensity seed p n"
  have j: "j < length (position sphere)"
    using assms(5) by (simp add: createBumpyGeometry_position Let_def sphere_def)
  have out: "position (fst (createBumpyGeometry radius segments intensity seed hp)) ! j = vscale D p"
    using createBumpyGeometry_vertex [OF j [unfolded sphere_def]]
    by (simp add: D_def p_def n_def sphere_def)
  note b = bumped_vertex [OF assms(1-4) j [unfolded sphere_def]
      p_def [unfolded sphere_def] n_def [unfolded sphere_def] D_def]
  show ?thesis
    unfolding out sphere_def [symmetric] n_def [symmetric]
    using b(2-5) by (intro conjI)
qed

text \<open>
  The amended C2 at radius 1, 128 segments, the intensity 0.06 of the call site, seed
  42 and vertex 0.
\<close>

theorem displacement_bounded_witness:
  "(1::real) / 2 ^ 64 \<le> 1 \<and> (1::real) \<le> 2 ^ 64 \<and> 0 \<le> dbl (6 / 100) \<and> dbl (6 / 100) \<le> 1
   \<and> 0 < length (position (fst (createBumpyGeometry 1 128 (dbl (6 / 100)) 42 no_closures)))
   \<and> 1 * (1 - dbl (6 / 100) * (6 / 10 + 4 / 10 * sqrt 3)) - 1 / 2 ^ 15
        \<le> vlength (position (fst (createBumpyGeometry 1 128 (dbl (6 / 100)) 42 no_closures)) ! 0)
   \<and> vlength (position (fst (createBumpyGeometry 1 128 (dbl (6 / 100)) 42 no_closures)) ! 0)
        \<le> 1 * (1 + dbl (6 / 100) * (6 / 10 + 4 / 10 * sqrt 3)) + 1 / 2 ^ 15"
proof -
  have len: "0 < length (position (fst (createBumpyGeometry 1 128 (dbl (6 / 100)) 42 no_closures)))"
    by (simp add: createBumpyGeometry_count)
  have r: "(1::real) / 2 ^ 64 \<le> 1" "(1::real) \<le> 2 ^ 64"
    by simp_all
  have i: "0 \<le> dbl (6 / 100)" "dbl (6 / 100) \<le> 1"
    using dbl_6_100 by linarith+
  from displacement_bounded [OF r i len] r i len show ?thesis
    by simp
qed

text \<open>
  C3, as stated, fails: \<open>createBumpyGeometry\<close> uses the intensity it is given. With
  intensity 1, which lies in [0, 1], and the seed that starts the generator of vertex
  2128 from state 35 (the seed 4294867464), the draw is 0.0075, the noise -0.985 and
  the displacement factor of that vertex about -0.148: the vertex moves through the
  centre to the other side, its first coordinate negative where the sphere's is
  positive.
\<close>

theorem intensity_unclamped_counterexample:
  "fst (position (fst (createBumpyGeometry 1 128 1
          (seed_for 35 (position (SphereGeometry 1 128 64) ! 2128)) no_closures)) ! 2128) < 0
   \<and> 0 < fst (position (SphereGeometry 1 128 64) ! 2128)
   \<and> displacement 1 (seed_for 35 (position (SphereGeometry 1 128 64) ! 2128))
         (position (SphereGeometry 1 128 64) ! 2128) (normal (SphereGeometry 1 128 64) ! 2128) < 0"
proof -
  define p where "p = position (SphereGeometry 1 128 64) ! 2128"
  define n where "n = normal (SphereGeometry 1 128 64) ! 2128"
  define D where "D = displacement 1 (seed_for 35 p) p n"
  define nu :: real where "nu = 32013594 / 4294967296 * 2 - 1"
  have i01: "(0::real) \<le> 1" "(1::real) \<le> 1" by simp_all
  note rep = example_vertex_report [OF i01 p_def n_def D_def]
  from rep(1) obtain W0 where W0: "1164 / 1000 \<le> W0" "W0 \<le> 2"
    and Dc: "\<bar>D - (1 + nu * 1 * W0)\<bar> \<le> 1 / 2 ^ 20 + 1 / 2 ^ 46"
    unfolding first_draw_35 nu_def by blast
  have nu: "nu \<le> - (985 / 1000)" by (simp add: nu_def)
  have "985 / 1000 * (1164 / 1000) \<le> (- nu) * W0"
    by (rule mult_mono [OF _ W0(1)]) (use nu in simp_all)
  then have "nu * 1 * W0 \<le> - (1146 / 1000)"
    by simp
  moreover have "(1::real) / 2 ^ 20 + 1 / 2 ^ 46 \<le> 2 / 1000000"
    by simp
  ultimately have Dneg: "D \<le> - (14 / 100)"
    using Dc by linarith
  have px: "7 / 10 \<le> fst p" by (rule rep(2))
  have "14 / 100 * (7 / 10) \<le> (- D) * fst p"
    by (rule mult_mono) (use Dneg px in simp_all)
  then have "fst p * D \<le> - (98 / 1000)"
    by (simp add: mult.commute)
  moreover have "(1::real) / 2 ^ 18 \<le> 1 / 1000"
    by simp
  ultimately have neg: "fst (vscale D p) < 0"
    using rep(5) by linarith
  have "2128 < length (position (SphereGeometry 1 (max 32 128) (max 16 (128 div 2))))"
    by (simp add: SphereGeometry_count)
  from createBumpyGeometry_vertex [OF this, of 1 "seed_for 35 p" no_closures]
  have out: "position (fst (createBumpyGeometry 1 128 1 (seed_for 35 p) no_closures)) ! 2128 = vscale D p"
    by (simp add: D_def p_def n_def)
  show ?thesis
    unfolding p_def [symmetric] n_def [symmetric] D_def [symmetric] out
    using neg px Dneg by simp
qed

text \<open>
  C3, amended. The clamp is at the only call site: \<open>AsteroidMesh\<close> passes
  \<open>Math.max(0.02, Math.min(0.12, 0.06))\<close>, which is 0.06 and lies in [0.02, 0.12], and
  \<open>createBumpyGeometry\<close> uses the intensity it receives unchanged. For a radius between
  \<open>2 ^ -64\<close> and \<open>2 ^ 64\<close> and every intensity between 0 and 0.12, each vertex of the
  result is the sphere's vertex scaled by a displacement factor between 0.84 and 1.16
  and lies at least \<open>0.84 * radius\<close> from the centre, so the surface is neither
  inverted nor collapsed. The function is total: it has no error branch.
\<close>

theorem intensity_clamped_by_caller:
  assumes "1 / 2 ^ 64 \<le> radius" and "radius \<le> 2 ^ 64"
    and "0 \<le> intensity" and "intensity \<le> 12 / 100"
    and "j < length (position (SphereGeometry radius (max 32 segments) (max 16 (segments div 2))))"
  shows "AsteroidMesh_geom nm hp = createBumpyGeometry 1 128 (dbl (6 / 100)) (hashCode nm) hp
       \<and> dbl (2 / 100) \<le> dbl (6 / 100) \<and> dbl (6 / 100) \<le> dbl (12 / 100)
       \<and> 0 \<le> dbl (6 / 100) \<and> dbl (6 / 100) \<le> 12 / 100
       \<and> position (fst (createBumpyGeometry radius segments intensity seed hp)) ! j =
           vscale (displacement intensity seed
                     (position (SphereGeometry radius (max 32 segments) (max 16 (segments div 2))) ! j)
                     (normal (SphereGeometry radius (max 32 segments) (max 16 (segments div 2))) ! j))
             (position (SphereGeometry radius (max 32 segments) (max 16 (segments div 2))) ! j)
       \<and> 84 / 100 \<le> displacement intensity seed
                     (position (SphereGeometry radius (max 32 segments) (max 16 (segments div 2))) ! j)
                     (normal (SphereGeometry radius (max 32 segments) (max 16 (segments div 2))) ! j)
       \<and> displacement intensity seed
                     (position (SphereGeometry radius (max 32 segments) (max 16 (segments div 2))) ! j)
                     (normal (SphereGeometry radius (max 32 segments) (max 16 (segments div 2))) ! j)
           \<le> 116 / 100
       \<and> radius * (84 / 100)
           \<le> vlength (position (fst (createBumpyGeometry radius segments intensity seed hp)) ! j)"
proof -
  define sphere where "sphere = SphereGeometry radius (max 32 segments) (max 16 (segments div 2))"
  define p where "p = position sphere ! j"
  define n where "n = normal sphere ! j"
  define D where "D = displacement intensity seed p n"
  define W where "W = 6 / 10 + 4 / 10 * sqrt 3"
  define IW where "IW = intensity * W"
  have j: "j < length (position sphere)"
    using assms(5) by (simp add: sphere_def)
  have out: "position (fst (createBumpyGeometry radius segments intensity seed hp)) ! j = vscale D p"
    using createBumpyGeometry_vertex [OF assms(5)] by (simp add: D_def p_def n_def sphere_def)
  have i1: "intensity \<le> 1" using assms(4) by linarith
  note b = bumped_vertex [OF assms(1-3) i1 assms(5)
      p_def [unfolded sphere_def] n_def [unfolded sphere_def] D_def, folded W_def IW_def]
  have W: "0 \<le> W" "W \<le> 13 / 10"
    using sqrt3_lt by (simp_all add: W_def)
  have "intensity * W \<le> 12 / 100 * (13 / 10)"
    by (rule mult_mono [OF assms(4) W(2)]) (use W assms(3) in simp_all)
  then have IW: "IW \<le> 156 / 1000" by (simp add: IW_def)
  have "\<bar>D - 1\<bar> \<le> IW + 1 / 2 ^ 19" by (rule b(1))
  moreover have "(1::real) / 2 ^ 19 \<le> 1 / 1000"
    by simp
  ultimately have D: "84 / 100 \<le> D" "D \<le> 116 / 100"
    using IW by linarith+
  have r0: "0 < radius" by (rule radius_range(1) [OF assms(1,2)])
  have "radius * (1 - IW) - radius / 2 ^ 15 \<le> vlength (vscale D p)"
    using b(2) by (simp only: IW_def)
  moreover have "radius * (844 / 1000) \<le> radius * (1 - IW)"
    using IW r0 by (intro mult_left_mono) simp_all
  moreover have "radius / 2 ^ 15 \<le> radius * (4 / 1000)"
    using r0 by simp
  ultimately have far: "radius * (84 / 100) \<le> vlength (vscale D p)"
    by linarith
  have call: "AsteroidMesh_geom nm hp = createBumpyGeometry 1 128 (dbl (6 / 100)) (hashCode nm) hp"
    by (simp only: AsteroidMesh_geom_def clamp_6_100)
  have c: "dbl (2 / 100) \<le> dbl (6 / 100)" "dbl (6 / 100) \<le> dbl (12 / 100)"
    using dbl_clamp_bounds dbl_6_100 by linarith+
  have c': "0 \<le> dbl (6 / 100)" "dbl (6 / 100) \<le> 12 / 100"
    using dbl_6_100 by linarith+
  show ?thesis
    unfolding out sphere_def [symmetric] p_def [symmetric] n_def [symmetric] D_def [symmetric]
    by (intro conjI call c c' D far refl)
qed

text \<open>The amended C3 at the inputs of the call site, seed 42 and vertex 0.\<close>

theorem intensity_clamped_by_caller_witness:
  "(1::real) / 2 ^ 64 \<le> 1 \<and> (1::real) \<le> 2 ^ 64 \<and> 0 \<le> dbl (6 / 100) \<and> dbl (6 / 100) \<le> 12 / 100
   \<and> 0 < length (position (SphereGeometry 1 (max 32 128) (max 16 (128 div 2))))
   \<and> AsteroidMesh_geom [] no_closures = createBumpyGeometry 1 128 (dbl (6 / 100)) (hashCode []) no_closures
   \<and> 84 / 100 \<le> displacement (dbl (6 / 100)) 42
                 (position (SphereGeometry 1 (max 32 128) (max 16 (128 div 2))) ! 0)
                 (normal (SphereGeometry 1 (max 32 128) (max 16 (128 div 2))) ! 0)"
proof -
  have len: "0 < length (position (SphereGeometry 1 (max 32 128) (max 16 (128 div 2))))"
    by (simp add: SphereGeometry_count)
  have r: "(1::real) / 2 ^ 64 \<le> 1" "(1::real) \<le> 2 ^ 64"
    by simp_all
  have i: "0 \<le> dbl (6 / 100)" "dbl (6 / 100) \<le> 12 / 100"
    using dbl_6_100 by linarith+
  from intensity_clamped_by_caller [OF r i len, of "[]" no_closures 42] r i len show ?thesis
    by simp
qed

text \<open>
  C4. Whatever \<open>segments\<close> is, the mesh returned is that of a sphere with
  \<open>w = max(32, segments)\<close> longitude and \<open>h = max(16, floor(segments / 2))\<close> latitude
  divisions, at least 32 and 16: it has the \<open>(h + 1) * (w + 1)\<close> vertices of \<open>h + 1\<close>
  rows of \<open>w + 1\<close> vertices and the \<open>6 * w * (h - 1)\<close> index entries of \<open>2 * w * (h - 1)\<close>
  triangles, and its first triangle joins vertex 0 to the vertices \<open>w + 1\<close> and
  \<open>w + 2\<close> of the next row. These are at least the \<open>17 * 33\<close> vertices and
  \<open>6 * 32 * 15\<close> index entries of the sphere with exactly 32 by 16 divisions.
\<close>

theorem createBumpyGeometry_resolution:
  "(let w = nat (max 32 segments); h = nat (max 16 (segments div 2));
        out = fst (createBumpyGeometry radius segments intensity seed hp)
    in 32 \<le> w \<and> 16 \<le> h
       \<and> length (position out) = (h + 1) * (w + 1)
       \<and> length (index out) = 6 * w * (h - 1)
       \<and> take 3 (index out) = [0, w + 1, w + 2]
       \<and> length (position (SphereGeometry radius 32 16)) = 17 * 33
       \<and> length (index (SphereGeometry radius 32 16)) = 6 * 32 * 15
       \<and> length (position (SphereGeometry radius 32 16)) \<le> length (position out)
       \<and> length (index (SphereGeometry radius 32 16)) \<le> length (index out))"
proof -
  define w where "w = nat (max 32 segments)"
  define h where "h = nat (max 16 (segments div 2))"
  have m: "max 3 (max 32 segments) = max 32 segments"
    "max 2 (max 16 (segments div 2)) = max 16 (segments div 2)"
    by simp_all
  have wh: "32 \<le> w" "16 \<le> h" by (simp_all add: w_def h_def)
  then have "17 * 33 \<le> (h + 1) * (w + 1)"
    by (intro mult_le_mono) simp_all
  moreover have "6 * 32 * 15 \<le> 6 * w * (h - 1)"
    using wh by (intro mult_le_mono) simp_all
  ultimately show ?thesis
    using wh
    by (simp add: Let_def createBumpyGeometry_count createBumpyGeometry_index
        SphereGeometry_count SphereGeometry_index_length SphereGeometry_first_face m
        flip: w_def h_def)
qed




subsection \<open>Catalogue, selection and search\<close>

lemma includes_js_sublist: "includes_js s q = sublist q s"
  by (induction s) (simp_all add: sublist_Cons_right)

lemma filtered_substring:
  "filtered asts qry =
     filter (\<lambda>a. sublist (toLowerCase (trim qry)) (toLowerCase (name a))
                \<or> sublist (toLowerCase (trim qry)) (toLowerCase (designation a))
                \<or> sublist (toLowerCase (trim qry)) (toLowerCase (id' a))) asts"
proof (cases "toLowerCase (trim qry) = []")
  case True
  then show ?thesis by (simp add: filtered_def)
next
  case False
  have "(s \<noteq> [] \<and> includes_js (toLowerCase s) (toLowerCase (trim qry))) =
      sublist (toLowerCase (trim qry)) (toLowerCase s)" for s
    using False by (cases s) (auto simp: includes_js_sublist toLowerCase_def)
  then show ?thesis
    using False by (simp add: filtered_def Let_def)
qed

lemmas search_eval =
  filtered_def SAMPLE_ASTEROIDS_def str_def toLowerCase_def trim_def is_space_def
  lower_unit_def Let_def

lemma sample_ids:
  "map id' SAMPLE_ASTEROIDS =
     [str ''99942'', str ''152830'', str ''25143'', str ''16'', str ''2024YR4'', str ''52246'',
      str ''Didymos'', str ''243'', str ''433'', str ''4'']"
  by (simp add: SAMPLE_ASTEROIDS_def)

lemma sample_ids_distinct: "distinct (map id' SAMPLE_ASTEROIDS)"
  unfolding sample_ids by (simp add: str_def)

lemma merged_catalog_duplicates:
  assumes "\<forall>it\<in>set items. \<exists>s\<in>set SAMPLE_ASTEROIDS. id' s = id' it"
  shows "merged_catalog items = SAMPLE_ASTEROIDS"
proof -
  have "filter (\<lambda>it. find (\<lambda>s. id' s = id' it) SAMPLE_ASTEROIDS = None) items = []"
    using assms by (auto simp: filter_empty_conv find_None_iff)
  then show ?thesis
    by (simp add: merged_catalog_def)
qed

lemma sample_nonempty: "SAMPLE_ASTEROIDS \<noteq> []"
  by (simp add: SAMPLE_ASTEROIDS_def)

lemma keep_selection_nonempty: "merged \<noteq> [] \<Longrightarrow> keep_selection merged prev \<noteq> None"
  by (cases merged) (simp_all add: keep_selection_def split: option.splits)

lemma keep_selection_found:
  assumes "find (\<lambda>m. id' m = id' prev) merged = Some m"
  shows "keep_selection merged prev = Some m \<and> m \<in> set merged \<and> id' m = id' prev"
proof -
  have "keep_selection merged prev = Some m"
    using assms by (simp add: keep_selection_def)
  moreover have "m \<in> set merged \<and> id' m = id' prev"
    using assms by (auto simp: find_Some_iff)
  ultimately show ?thesis by simp
qed

text \<open>
  C7. When every fetched item has the identifier of a sample entry, the merged catalogue
  is the sample catalogue itself: the same entries in the same order, none replaced, no
  identifier twice; a refresh in a state that holds the sample catalogue leaves the
  catalogue as it was.
\<close>

theorem merge_duplicates_unchanged:
  assumes "\<forall>it\<in>set items. \<exists>s\<in>set SAMPLE_ASTEROIDS. id' s = id' it"
    and "asteroids st = SAMPLE_ASTEROIDS" and "selected st = Some prev"
  shows "merged_catalog items = SAMPLE_ASTEROIDS
       \<and> distinct (map id' (merged_catalog items))
       \<and> (\<exists>st'. fetchNeos_loaded items st = Inr st' \<and> asteroids st' = asteroids st)"
  using assms(2,3) merged_catalog_duplicates [OF assms(1)] sample_ids_distinct
  by (simp add: fetchNeos_loaded_def)

text \<open>
  C7 on a fetched item with identifier 433 and another name: the merged catalogue is the
  sample catalogue, and its entry 433 keeps the sample's name.
\<close>

theorem merge_duplicates_unchanged_witness:
  "id' fetched_duplicate = id' (SAMPLE_ASTEROIDS ! 8)
   \<and> fetched_duplicate \<noteq> SAMPLE_ASTEROIDS ! 8
   \<and> merged_catalog [fetched_duplicate] = SAMPLE_ASTEROIDS
   \<and> name (merged_catalog [fetched_duplicate] ! 8) = str ''433 Eros''
   \<and> (\<exists>st'. fetchNeos_loaded [fetched_duplicate] initial_state = Inr st'
          \<and> asteroids st' = SAMPLE_ASTEROIDS)"
proof -
  have "id' fetched_duplicate \<in> set (map id' SAMPLE_ASTEROIDS)"
    unfolding sample_ids by (simp add: fetched_duplicate_def)
  then have dup: "\<forall>it\<in>set [fetched_duplicate]. \<exists>s\<in>set SAMPLE_ASTEROIDS. id' s = id' it"
    by auto
  have a: "asteroids initial_state = SAMPLE_ASTEROIDS"
    and s: "selected initial_state = Some (SAMPLE_ASTEROIDS ! 0)"
    by (simp_all add: initial_state_def)
  have n: "name (SAMPLE_ASTEROIDS ! 8) = str ''433 Eros''"
    by (simp add: SAMPLE_ASTEROIDS_def)
  have i: "id' fetched_duplicate = id' (SAMPLE_ASTEROIDS ! 8)"
    by (simp add: SAMPLE_ASTEROIDS_def fetched_duplicate_def)
  have "name fetched_duplicate \<noteq> name (SAMPLE_ASTEROIDS ! 8)"
    unfolding n by (simp add: fetched_duplicate_def str_def)
  then have d: "fetched_duplicate \<noteq> SAMPLE_ASTEROIDS ! 8"
    by auto
  from merge_duplicates_unchanged [OF dup a s] n i d a show ?thesis
    by simp
qed

text \<open>
  C8, as stated, fails: the enriched entry also gets the property \<open>sbdb_raw\<close>, the raw
  response, which the entry did not have; so it is not the entry with only its diameter
  replaced. (No Number is converted to text here; the conversion given is not used.)
\<close>

theorem enrichment_adds_raw_counterexample:
  "sbdb_raw (enriched (\<lambda>x. []) (SAMPLE_ASTEROIDS ! 8) (diameter_only (JNum 17))) \<noteq>
     sbdb_raw (SAMPLE_ASTEROIDS ! 8)
   \<and> enriched (\<lambda>x. []) (SAMPLE_ASTEROIDS ! 8) (diameter_only (JNum 17)) \<noteq>
       (SAMPLE_ASTEROIDS ! 8)\<lparr>diameter_km := JNum 17\<rparr>"
proof -
  have "sbdb_raw (SAMPLE_ASTEROIDS ! 8) = None"
    by (simp add: SAMPLE_ASTEROIDS_def)
  moreover have "sbdb_raw (enriched (\<lambda>x. []) (SAMPLE_ASTEROIDS ! 8) (diameter_only (JNum 17))) =
      Some (diameter_only (JNum 17))"
    by (simp add: enriched_def Let_def)
  ultimately show ?thesis
    by (metis entry.select_convs(11) entry.surjective entry.update_convs(4) option.distinct(1))
qed

text \<open>
  C8, amended. Enriching an entry with a response that holds only a diameter replaces
  the diameter by the response's when that is truthy (and keeps it otherwise), adds
  the property \<open>sbdb_raw\<close> holding the response, and leaves every other property as
  it was; the result becomes the selection.
\<close>

theorem enrichment_diameter_only:
  "enriched num_text obj (diameter_only d) =
     obj\<lparr>diameter_km := (if truthy d then d else diameter_km obj),
         sbdb_raw := Some (diameter_only d)\<rparr>
   \<and> selected (fetchSBDBDetails num_text obj (Some (diameter_only d)) st) =
       Some (obj\<lparr>diameter_km := (if truthy d then d else diameter_km obj),
                 sbdb_raw := Some (diameter_only d)\<rparr>)"
  by (simp add: enriched_def fetchSBDBDetails_def diameter_only_def or_else_def Let_def)

text \<open>
  C9. The search returns, in catalogue order, the entries of which the name, the
  designation or the identifier contains the trimmed query, both in lower case
  (with an empty query: all entries). On the sample catalogue the query \<open>eros\<close> returns
  exactly one entry, the one with identifier 433, and so does \<open>EROS\<close>.
\<close>

theorem catalog_search:
  "filtered asts qry =
     filter (\<lambda>a. sublist (toLowerCase (trim qry)) (toLowerCase (name a))
                \<or> sublist (toLowerCase (trim qry)) (toLowerCase (designation a))
                \<or> sublist (toLowerCase (trim qry)) (toLowerCase (id' a))) asts
   \<and> filtered SAMPLE_ASTEROIDS (str ''eros'') = [SAMPLE_ASTEROIDS ! 8]
   \<and> filtered SAMPLE_ASTEROIDS (str ''EROS'') = [SAMPLE_ASTEROIDS ! 8]
   \<and> id' (SAMPLE_ASTEROIDS ! 8) = str ''433''"
proof -
  have "filtered SAMPLE_ASTEROIDS (str ''eros'') = [SAMPLE_ASTEROIDS ! 8]"
    by (simp add: search_eval)
  moreover have "filtered SAMPLE_ASTEROIDS (str ''EROS'') = [SAMPLE_ASTEROIDS ! 8]"
    by (simp add: search_eval)
  moreover have "id' (SAMPLE_ASTEROIDS ! 8) = str ''433''"
    by (simp add: SAMPLE_ASTEROIDS_def)
  ultimately show ?thesis
    using filtered_substring [of asts qry] by simp
qed

text \<open>
  C10. The function that updates the selection returns the first entry of the merged
  catalogue with the identifier of the previous selection when there is one, and the
  first entry of the merged catalogue otherwise (\<open>undefined\<close> for an empty catalogue,
  which a merge never yields). After a refresh with a non-empty list of items the
  catalogue is the merged one and the selection is that entry.
\<close>

theorem selection_after_merge:
  "(id' prev \<in> id' ` set merged \<longrightarrow>
      (\<exists>m. keep_selection merged prev = Some m \<and> m \<in> set merged \<and> id' m = id' prev
           \<and> find (\<lambda>m. id' m = id' prev) merged = Some m))
   \<and> (id' prev \<notin> id' ` set merged \<longrightarrow>
        keep_selection merged prev = (case merged of [] \<Rightarrow> None | m # _ \<Rightarrow> Some m))
   \<and> (items \<noteq> [] \<longrightarrow> selected st = Some prev \<longrightarrow>
        (\<exists>st'. fetchNeos_loaded items st = Inr st'
            \<and> asteroids st' = merged_catalog items
            \<and> selected st' = keep_selection (merged_catalog items) prev
            \<and> selected st' \<noteq> None))"
proof -
  have found: "id' prev \<in> id' ` set merged \<Longrightarrow>
      \<exists>m. keep_selection merged prev = Some m \<and> m \<in> set merged \<and> id' m = id' prev
           \<and> find (\<lambda>m. id' m = id' prev) merged = Some m"
  proof -
    assume "id' prev \<in> id' ` set merged"
    then have "find (\<lambda>m. id' m = id' prev) merged \<noteq> None"
      by (auto simp: find_None_iff)
    then obtain m where m: "find (\<lambda>m. id' m = id' prev) merged = Some m"
      by auto
    from keep_selection_found [OF m] m show ?thesis by blast
  qed
  have missing: "id' prev \<notin> id' ` set merged \<Longrightarrow>
      keep_selection merged prev = (case merged of [] \<Rightarrow> None | m # _ \<Rightarrow> Some m)"
  proof -
    assume "id' prev \<notin> id' ` set merged"
    then have "find (\<lambda>m. id' m = id' prev) merged = None"
      unfolding find_None_iff by (metis imageI)
    then show ?thesis by (simp add: keep_selection_def)
  qed
  have nonempty: "keep_selection (merged_catalog items) prev \<noteq> None"
    by (rule keep_selection_nonempty) (simp add: merged_catalog_def sample_nonempty)
  show ?thesis
    using found missing nonempty by (simp add: fetchNeos_loaded_def)
qed

text \<open>
  C10 on the sample catalogue: an enriched entry 433 is replaced by the catalogue's
  entry 433, an entry with the unknown identifier 1 by the first entry, and the refresh
  of the initial state keeps a selection.
\<close>

theorem selection_after_merge_witness:
  "id' (SAMPLE_ASTEROIDS ! 8) \<in> id' ` set SAMPLE_ASTEROIDS
   \<and> (\<exists>m. keep_selection SAMPLE_ASTEROIDS
              (enriched (\<lambda>x. []) (SAMPLE_ASTEROIDS ! 8) (diameter_only (JNum 17))) = Some m
          \<and> m \<in> set SAMPLE_ASTEROIDS \<and> id' m = str ''433'')
   \<and> id' (fetched_duplicate\<lparr>id' := str ''1''\<rparr>) \<notin> id' ` set SAMPLE_ASTEROIDS
   \<and> keep_selection SAMPLE_ASTEROIDS (fetched_duplicate\<lparr>id' := str ''1''\<rparr>) =
       Some (SAMPLE_ASTEROIDS ! 0)
   \<and> [fetched_duplicate] \<noteq> []
   \<and> selected initial_state = Some (SAMPLE_ASTEROIDS ! 0)
   \<and> (\<exists>st'. fetchNeos_loaded [fetched_duplicate] initial_state = Inr st'
          \<and> selected st' = keep_selection (merged_catalog [fetched_duplicate]) (SAMPLE_ASTEROIDS ! 0)
          \<and> selected st' \<noteq> None)"
proof -
  define e where "e = enriched (\<lambda>x. []) (SAMPLE_ASTEROIDS ! 8) (diameter_only (JNum 17))"
  define x where "x = fetched_duplicate\<lparr>id' := str ''1''\<rparr>"
  have ide: "id' e = str ''433''"
    by (simp add: e_def enriched_def Let_def SAMPLE_ASTEROIDS_def)
  have ids: "id' ` set SAMPLE_ASTEROIDS = set (map id' SAMPLE_ASTEROIDS)"
    by simp
  have in8: "id' (SAMPLE_ASTEROIDS ! 8) \<in> id' ` set SAMPLE_ASTEROIDS"
    unfolding ids sample_ids by (simp add: SAMPLE_ASTEROIDS_def)
  have ine: "id' e \<in> id' ` set SAMPLE_ASTEROIDS"
    unfolding ids sample_ids ide by simp
  have notx: "id' x \<notin> id' ` set SAMPLE_ASTEROIDS"
    unfolding ids sample_ids by (simp add: x_def str_def)
  obtain m ms where ms: "SAMPLE_ASTEROIDS = m # ms"
    using sample_nonempty by (cases SAMPLE_ASTEROIDS) auto
  have sel: "selected initial_state = Some (SAMPLE_ASTEROIDS ! 0)"
    by (simp add: initial_state_def)
  have ne: "[fetched_duplicate] \<noteq> []"
    by simp
  from selection_after_merge [of e SAMPLE_ASTEROIDS "[fetched_duplicate]" initial_state] ine ide
  have 1: "\<exists>m. keep_selection SAMPLE_ASTEROIDS e = Some m \<and> m \<in> set SAMPLE_ASTEROIDS \<and> id' m = str ''433''"
    by auto
  from selection_after_merge [of x SAMPLE_ASTEROIDS "[fetched_duplicate]" initial_state] notx
  have 2: "keep_selection SAMPLE_ASTEROIDS x = Some (SAMPLE_ASTEROIDS ! 0)"
    by (simp add: ms)
  from selection_after_merge [of "SAMPLE_ASTEROIDS ! 0" SAMPLE_ASTEROIDS "[fetched_duplicate]" initial_state] sel ne
  have 3: "\<exists>st'. fetchNeos_loaded [fetched_duplicate] initial_state = Inr st'
          \<and> selected st' = keep_selection (merged_catalog [fetched_duplicate]) (SAMPLE_ASTEROIDS ! 0)
          \<and> selected st' \<noteq> None"
    by blast
  show ?thesis
    using in8 1 notx 2 ne sel 3 unfolding e_def x_def by blast
qed

end
